theory Spec2Isabelle
  imports Main "HOL-Library.Word"
begin

section \<open>The AST interpreter of oif.cpp and its four fusion stages\<close>

text \<open>
  The source is one file, \<^verbatim>\<open>src/oif.cpp\<close>: a tree-walking interpreter over
  \<^verbatim>\<open>uint32_t\<close> values in four namespaces (\<^verbatim>\<open>Simplest\<close>, \<^verbatim>\<open>SimpleFusion\<close>,
  \<^verbatim>\<open>BetterFusion\<close>, \<^verbatim>\<open>SimplifyCalls\<close>), each with a driver \<^verbatim>\<open>fib\<close>, and a plain
  recursive \<^verbatim>\<open>fib\<close>.

  \<^item> \<^verbatim>\<open>uint32_t\<close> is \<open>32 word\<close>: \<open>+\<close> and \<open>-\<close> wrap around modulo \<open>2 ^ 32\<close>.
  \<^item> \<^verbatim>\<open>Context\<close> is a record that every evaluation takes and returns.
  \<^item> The class hierarchy under \<^verbatim>\<open>Node\<close> is one datatype with a constructor per class;
    the virtual \<^verbatim>\<open>eval\<close> is one function by cases on the constructor.
  \<^item> A non-owning pointer (\<^verbatim>\<open>CallNode::function\<close>, \<^verbatim>\<open>CallAnyNode::function\<close>) is an
    address, a \<open>nat\<close>, looked up in the program's object tables.
  \<^item> The C++ has no error value. What it leaves undefined (a load or store outside the
    4096 words of the argument stack) is the outcome \<open>UndefinedBehaviour\<close>; a recursion
    deeper than the fuel given is the outcome \<open>OutOfFuel\<close>.
\<close>

subsection \<open>Values, the context, outcomes\<close>

type_synonym u32 = "32 word"

text \<open>
  \<^verbatim>\<open>struct Context { bool stopForReturn; uint32_t returnValue; uint32_t* stack;
  uint32_t stackTop; }\<close>. The array behind \<^verbatim>\<open>stack\<close> is the function \<open>stack\<close> from
  indices to words; its length is fixed by the only constructor, \<open>STACK_SIZE\<close> below,
  and every access checks the index against it.
\<close>

record Context =
  stopForReturn :: bool
  returnValue :: u32
  stack :: "nat \<Rightarrow> u32"
  stackTop :: u32

text \<open>\<^verbatim>\<open>new uint32_t[4096]\<close>: the number of words the constructor allocates.\<close>

definition STACK_SIZE :: nat where
  "STACK_SIZE = 4096"

text \<open>
  \<^verbatim>\<open>Context() : stopForReturn(false), returnValue(0), stack(new uint32_t[4096]),
  stackTop(0)\<close>. The words of a \<^verbatim>\<open>new uint32_t[4096]\<close> are not initialised: their
  contents are the parameter \<open>mem\<close>.
\<close>

definition Context_init :: "(nat \<Rightarrow> u32) \<Rightarrow> Context" where
  "Context_init mem =
     \<lparr>stopForReturn = False, returnValue = 0, stack = mem, stackTop = 0\<rparr>"

text \<open>
  The two accesses the C++ leaves undefined: \<^verbatim>\<open>ctx->stack[i] = v\<close> and
  \<^verbatim>\<open>ctx->stack[i]\<close> with \<open>i\<close> outside the allocated array. The code checks neither.
\<close>

datatype ub = StackWriteOutOfBounds | StackReadOutOfBounds

datatype fault = OutOfFuel | UndefinedBehaviour ub

type_synonym outcome = "fault + (u32 \<times> Context)"

subsection \<open>Nodes, functions, programs\<close>

text \<open>
  \<^verbatim>\<open>BetterFusion::ConstNode\<close> (one field, \<^verbatim>\<open>value\<close>) and \<^verbatim>\<open>BetterFusion::ArgNode\<close>
  (no field) are types of their own: \<^verbatim>\<open>LessArgConstNode\<close> and \<^verbatim>\<open>SubArgConstNode\<close> hold
  pointers of exactly these types and call their \<^verbatim>\<open>compute\<close> directly.
\<close>

datatype BetterFusion_ConstNode = BetterFusion_ConstNode u32

datatype BetterFusion_ArgNode = BetterFusion_ArgNode

text \<open>
  One constructor per class derived from \<^verbatim>\<open>Simplest::Node\<close>, in the order of the
  source. \<open>Node\<close> is the base class itself (its \<^verbatim>\<open>eval\<close> returns 0). \<open>BConstNode\<close> and
  \<open>BArgNode\<close> are a \<^verbatim>\<open>BetterFusion::ConstNode\<close> and \<^verbatim>\<open>BetterFusion::ArgNode\<close> held
  through a \<^verbatim>\<open>Node*\<close>. \<open>CallNode\<close>, \<open>BetterFusion_CallNode\<close> and \<open>CallAnyNode\<close> hold the
  address of their callee, which they do not own.
\<close>

datatype node =
    Node
  | ConstNode u32
  | AddNode node node
  | SubNode node node
  | LessNode node node
  | IfNode node node
  | CallNode nat node
  | ReturnNode node
  | ArgNode
  | LessConstNode node u32
  | SubConstNode node u32
  | BConstNode BetterFusion_ConstNode
  | BArgNode BetterFusion_ArgNode
  | LessArgConstNode BetterFusion_ArgNode BetterFusion_ConstNode
  | SubArgConstNode BetterFusion_ArgNode BetterFusion_ConstNode
  | BetterFusion_CallNode nat node
  | CallAnyNode nat node
  | IfElseNode node node node

text \<open>
  \<^verbatim>\<open>struct Function { Node** body; uint32_t numNodes; }\<close>, in \<^verbatim>\<open>Simplest\<close> and again,
  field for field, in \<^verbatim>\<open>BetterFusion\<close>: the statements in order. \<^verbatim>\<open>numNodes\<close> is the
  length of \<open>body\<close>; \<^verbatim>\<open>Function()\<close> leaves it 0.
\<close>

record Function =
  body :: "node list"

definition Function_init :: "node list \<Rightarrow> Function" where
  "Function_init statements = \<lparr>body = statements\<rparr>"

text \<open>
  C++ leaves unspecified which operand of a built-in \<^verbatim>\<open>+\<close>, \<^verbatim>\<open>-\<close> or \<^verbatim>\<open><\<close> is
  evaluated first. The source has five such expressions whose operands are calls,
  one in each of \<^verbatim>\<open>AddNode::eval\<close>, \<^verbatim>\<open>SubNode::eval\<close>, \<^verbatim>\<open>LessNode::eval\<close>,
  \<^verbatim>\<open>LessArgConstNode::compute\<close> and \<^verbatim>\<open>SubArgConstNode::compute\<close>; the compiler fixes
  an order for each.
\<close>

datatype operator_site =
  InAddNode | InSubNode | InLessNode | InLessArgConstNode | InSubArgConstNode

text \<open>
  What an evaluation reads besides the context: the \<^verbatim>\<open>Function\<close> objects and the
  nodes that call sites point to, by address, and the operand order the compiler chose
  at each of the five expressions (\<open>lhs_first P s\<close>: at \<open>s\<close> the left operand is
  evaluated first).
\<close>

record program =
  function_at :: "nat \<Rightarrow> Function"
  node_at :: "nat \<Rightarrow> node"
  lhs_first :: "operator_site \<Rightarrow> bool"

subsection \<open>Stack accesses and the compute entry points\<close>

text \<open>\<^verbatim>\<open>ctx->stack[ctx->stackTop] = v; ctx->stackTop += 1;\<close>\<close>

definition push_arg :: "u32 \<Rightarrow> Context \<Rightarrow> fault + Context" where
  "push_arg v ctx =
     (if unat (stackTop ctx) < STACK_SIZE
      then Inr (ctx\<lparr>stack := (stack ctx)(unat (stackTop ctx) := v),
                    stackTop := stackTop ctx + 1\<rparr>)
      else Inl (UndefinedBehaviour StackWriteOutOfBounds))"

text \<open>
  \<^verbatim>\<open>return ctx->stack[ctx->stackTop - 1];\<close> The index is computed in \<^verbatim>\<open>uint32_t\<close>:
  with \<open>stackTop = 0\<close> it is \<open>2 ^ 32 - 1\<close>.
\<close>

definition read_arg :: "Context \<Rightarrow> outcome" where
  "read_arg ctx =
     (if unat (stackTop ctx - 1) < STACK_SIZE
      then Inr (stack ctx (unat (stackTop ctx - 1)), ctx)
      else Inl (UndefinedBehaviour StackReadOutOfBounds))"

text \<open>
  \<^verbatim>\<open>ctx->stopForReturn = false; ctx->stackTop -= 1;\<close>, the exit of every call node.
\<close>

definition pop_frame :: "Context \<Rightarrow> Context" where
  "pop_frame ctx = ctx\<lparr>stopForReturn := False, stackTop := stackTop ctx - 1\<rparr>"

text \<open>\<^verbatim>\<open>BetterFusion::ConstNode::compute\<close> and \<^verbatim>\<open>BetterFusion::ArgNode::compute\<close>.\<close>

fun ConstNode_compute :: "BetterFusion_ConstNode \<Rightarrow> Context \<Rightarrow> outcome" where
  "ConstNode_compute (BetterFusion_ConstNode v) ctx = Inr (v, ctx)"

fun ArgNode_compute :: "BetterFusion_ArgNode \<Rightarrow> Context \<Rightarrow> outcome" where
  "ArgNode_compute BetterFusion_ArgNode ctx = read_arg ctx"

text \<open>
  The two operands of a binary operator, given as computations on the context, in the
  order the compiler chose; the result is the pair of values in the order written.
\<close>

definition operands ::
  "bool \<Rightarrow> (Context \<Rightarrow> outcome) \<Rightarrow> (Context \<Rightarrow> outcome) \<Rightarrow> Context \<Rightarrow>
   fault + ((u32 \<times> u32) \<times> Context)" where
  "operands lf l r ctx =
     (if lf then
        (case l ctx of Inl e \<Rightarrow> Inl e
         | Inr (a, c1) \<Rightarrow>
             (case r c1 of Inl e \<Rightarrow> Inl e | Inr (b, c2) \<Rightarrow> Inr ((a, b), c2)))
      else
        (case r ctx of Inl e \<Rightarrow> Inl e
         | Inr (b, c1) \<Rightarrow>
             (case l c1 of Inl e \<Rightarrow> Inl e | Inr (a, c2) \<Rightarrow> Inr ((a, b), c2))))"

text \<open>
  \<^verbatim>\<open>LessArgConstNode::compute\<close>: \<^verbatim>\<open>lhs->compute(ctx) < rhs->compute(ctx)\<close>, and
  \<^verbatim>\<open>SubArgConstNode::compute\<close>: \<^verbatim>\<open>lhs->compute(ctx) - rhs->compute(ctx)\<close>. A C++
  \<^verbatim>\<open>bool\<close> converts to 1 or 0.
\<close>

definition of_bool32 :: "bool \<Rightarrow> u32" where
  "of_bool32 b = (if b then 1 else 0)"

definition LessArgConstNode_compute ::
  "bool \<Rightarrow> BetterFusion_ArgNode \<Rightarrow> BetterFusion_ConstNode \<Rightarrow> Context \<Rightarrow> outcome" where
  "LessArgConstNode_compute lf lhs rhs ctx =
     (case operands lf (ArgNode_compute lhs) (ConstNode_compute rhs) ctx of
        Inl e \<Rightarrow> Inl e
      | Inr ((a, b), c) \<Rightarrow> Inr (of_bool32 (a < b), c))"

definition SubArgConstNode_compute ::
  "bool \<Rightarrow> BetterFusion_ArgNode \<Rightarrow> BetterFusion_ConstNode \<Rightarrow> Context \<Rightarrow> outcome" where
  "SubArgConstNode_compute lf lhs rhs ctx =
     (case operands lf (ArgNode_compute lhs) (ConstNode_compute rhs) ctx of
        Inl e \<Rightarrow> Inl e
      | Inr ((a, b), c) \<Rightarrow> Inr (a - b, c))"

subsection \<open>The virtual eval\<close>

text \<open>
  \<open>eval fuel P n ctx\<close> is \<^verbatim>\<open>n->eval(ctx)\<close>. The fuel bounds the nesting of calls: a call
  node with fuel \<open>Suc k\<close> runs its callee with fuel \<open>k\<close>, every other node passes its
  fuel on to its children. \<open>run_body\<close> is the statement loop of \<^verbatim>\<open>CallNode::eval\<close>:
  \<^verbatim>\<open>for (i = 0; i < numNodes; i++) { body[i]->eval(ctx); if (ctx->stopForReturn) break; }\<close>

  In \<^verbatim>\<open>ctx->stack[ctx->stackTop] = arg->eval(ctx)\<close> the right operand is evaluated
  before the left one is read (C++17); no evaluation that completes leaves
  \<^verbatim>\<open>stackTop\<close> changed (\<open>eval_frames_kept\<close> below), so the index is the same in the
  other order.
\<close>

fun eval :: "nat \<Rightarrow> program \<Rightarrow> node \<Rightarrow> Context \<Rightarrow> outcome"
  and run_body :: "nat \<Rightarrow> program \<Rightarrow> node list \<Rightarrow> Context \<Rightarrow> fault + Context" where
  "eval fuel P Node ctx = Inr (0, ctx)"
| "eval fuel P (ConstNode v) ctx = Inr (v, ctx)"
| "eval fuel P (AddNode lhs rhs) ctx =
     (if lhs_first P InAddNode then
        (case eval fuel P lhs ctx of Inl e \<Rightarrow> Inl e
         | Inr (a, c1) \<Rightarrow>
             (case eval fuel P rhs c1 of Inl e \<Rightarrow> Inl e | Inr (b, c2) \<Rightarrow> Inr (a + b, c2)))
      else
        (case eval fuel P rhs ctx of Inl e \<Rightarrow> Inl e
         | Inr (b, c1) \<Rightarrow>
             (case eval fuel P lhs c1 of Inl e \<Rightarrow> Inl e | Inr (a, c2) \<Rightarrow> Inr (a + b, c2))))"
| "eval fuel P (SubNode lhs rhs) ctx =
     (if lhs_first P InSubNode then
        (case eval fuel P lhs ctx of Inl e \<Rightarrow> Inl e
         | Inr (a, c1) \<Rightarrow>
             (case eval fuel P rhs c1 of Inl e \<Rightarrow> Inl e | Inr (b, c2) \<Rightarrow> Inr (a - b, c2)))
      else
        (case eval fuel P rhs ctx of Inl e \<Rightarrow> Inl e
         | Inr (b, c1) \<Rightarrow>
             (case eval fuel P lhs c1 of Inl e \<Rightarrow> Inl e | Inr (a, c2) \<Rightarrow> Inr (a - b, c2))))"
| "eval fuel P (LessNode lhs rhs) ctx =
     (if lhs_first P InLessNode then
        (case eval fuel P lhs ctx of Inl e \<Rightarrow> Inl e
         | Inr (a, c1) \<Rightarrow>
             (case eval fuel P rhs c1 of Inl e \<Rightarrow> Inl e
              | Inr (b, c2) \<Rightarrow> Inr (of_bool32 (a < b), c2)))
      else
        (case eval fuel P rhs ctx of Inl e \<Rightarrow> Inl e
         | Inr (b, c1) \<Rightarrow>
             (case eval fuel P lhs c1 of Inl e \<Rightarrow> Inl e
              | Inr (a, c2) \<Rightarrow> Inr (of_bool32 (a < b), c2))))"
| "eval fuel P (IfNode condition stmt) ctx =
     (case eval fuel P condition ctx of Inl e \<Rightarrow> Inl e
      | Inr (c, c1) \<Rightarrow>
          if c \<noteq> 0 then
            (case eval fuel P stmt c1 of Inl e \<Rightarrow> Inl e | Inr (_, c2) \<Rightarrow> Inr (0, c2))
          else Inr (0, c1))"
| "eval 0 P (CallNode f arg) ctx = Inl OutOfFuel"
| "eval (Suc fuel) P (CallNode f arg) ctx =
     (case eval (Suc fuel) P arg ctx of Inl e \<Rightarrow> Inl e
      | Inr (v, c1) \<Rightarrow>
          (case push_arg v c1 of Inl e \<Rightarrow> Inl e
           | Inr c2 \<Rightarrow>
               (case run_body fuel P (body (function_at P f)) c2 of Inl e \<Rightarrow> Inl e
                | Inr c3 \<Rightarrow> Inr (returnValue (pop_frame c3), pop_frame c3))))"
| "eval fuel P (ReturnNode rhs) ctx =
     (case eval fuel P rhs ctx of Inl e \<Rightarrow> Inl e
      | Inr (v, c1) \<Rightarrow> Inr (0, c1\<lparr>returnValue := v, stopForReturn := True\<rparr>))"
| "eval fuel P ArgNode ctx = read_arg ctx"
| "eval fuel P (LessConstNode lhs constant) ctx =
     (case eval fuel P lhs ctx of Inl e \<Rightarrow> Inl e
      | Inr (a, c1) \<Rightarrow> Inr (of_bool32 (a < constant), c1))"
| "eval fuel P (SubConstNode lhs constant) ctx =
     (case eval fuel P lhs ctx of Inl e \<Rightarrow> Inl e
      | Inr (a, c1) \<Rightarrow> Inr (a - constant, c1))"
| "eval fuel P (BConstNode n) ctx = ConstNode_compute n ctx"
| "eval fuel P (BArgNode n) ctx = ArgNode_compute n ctx"
| "eval fuel P (LessArgConstNode lhs rhs) ctx =
     LessArgConstNode_compute (lhs_first P InLessArgConstNode) lhs rhs ctx"
| "eval fuel P (SubArgConstNode lhs rhs) ctx =
     SubArgConstNode_compute (lhs_first P InSubArgConstNode) lhs rhs ctx"
| "eval 0 P (BetterFusion_CallNode f arg) ctx = Inl OutOfFuel"
| "eval (Suc fuel) P (BetterFusion_CallNode f arg) ctx =
     (case eval (Suc fuel) P arg ctx of Inl e \<Rightarrow> Inl e
      | Inr (v, c1) \<Rightarrow>
          (case push_arg v c1 of Inl e \<Rightarrow> Inl e
           | Inr c2 \<Rightarrow>
               (case run_body fuel P (body (function_at P f)) c2 of Inl e \<Rightarrow> Inl e
                | Inr c3 \<Rightarrow> Inr (returnValue (pop_frame c3), pop_frame c3))))"
| "eval 0 P (CallAnyNode f arg) ctx = Inl OutOfFuel"
| "eval (Suc fuel) P (CallAnyNode f arg) ctx =
     (case eval (Suc fuel) P arg ctx of Inl e \<Rightarrow> Inl e
      | Inr (v, c1) \<Rightarrow>
          (case push_arg v c1 of Inl e \<Rightarrow> Inl e
           | Inr c2 \<Rightarrow>
               (case eval fuel P (node_at P f) c2 of Inl e \<Rightarrow> Inl e
                | Inr (result, c3) \<Rightarrow> Inr (result, pop_frame c3))))"
| "eval fuel P (IfElseNode condition ifBody elseBody) ctx =
     (case eval fuel P condition ctx of Inl e \<Rightarrow> Inl e
      | Inr (c, c1) \<Rightarrow>
          if c \<noteq> 0 then eval fuel P ifBody c1 else eval fuel P elseBody c1)"
| "run_body fuel P [] ctx = Inr ctx"
| "run_body fuel P (statement # rest) ctx =
     (case eval fuel P statement ctx of Inl e \<Rightarrow> Inl e
      | Inr (_, c1) \<Rightarrow> if stopForReturn c1 then Inr c1 else run_body fuel P rest c1)"

subsection \<open>The four drivers and the reference\<close>

text \<open>
  Each driver builds its tree, wraps it in a top-level call on the constant \<open>n\<close> and
  evaluates the call in a fresh context. The one \<^verbatim>\<open>Function\<close> (in the last stage, the
  one \<^verbatim>\<open>IfElseNode\<close>) that the call sites point to is the object at address 0; no other
  address is ever followed. The drivers return the value of the call; the context is
  destroyed.
\<close>

definition run_fresh :: "nat \<Rightarrow> program \<Rightarrow> node \<Rightarrow> (nat \<Rightarrow> u32) \<Rightarrow> fault + u32" where
  "run_fresh fuel P call mem =
     (case eval fuel P call (Context_init mem) of
        Inl e \<Rightarrow> Inl e
      | Inr (result, _) \<Rightarrow> Inr result)"

text \<open>\<^verbatim>\<open>Simplest::fib\<close>.\<close>

definition Simplest_function :: Function where
  "Simplest_function = Function_init
     [IfNode (LessNode ArgNode (ConstNode 2)) (ReturnNode ArgNode),
      ReturnNode
        (AddNode
          (CallNode 0 (SubNode ArgNode (ConstNode 1)))
          (CallNode 0 (SubNode ArgNode (ConstNode 2))))]"

definition Simplest_program :: "(operator_site \<Rightarrow> bool) \<Rightarrow> program" where
  "Simplest_program lf =
     \<lparr>function_at = (\<lambda>_. Function_init [])(0 := Simplest_function),
      node_at = (\<lambda>_. Node), lhs_first = lf\<rparr>"

definition Simplest_fib :: "nat \<Rightarrow> (operator_site \<Rightarrow> bool) \<Rightarrow> (nat \<Rightarrow> u32) \<Rightarrow> u32 \<Rightarrow> fault + u32" where
  "Simplest_fib fuel lf mem n =
     run_fresh fuel (Simplest_program lf) (CallNode 0 (ConstNode n)) mem"

text \<open>\<^verbatim>\<open>SimpleFusion::fib\<close>.\<close>

definition SimpleFusion_function :: Function where
  "SimpleFusion_function = Function_init
     [IfNode (LessConstNode ArgNode 2) (ReturnNode ArgNode),
      ReturnNode
        (AddNode
          (CallNode 0 (SubConstNode ArgNode 1))
          (CallNode 0 (SubConstNode ArgNode 2)))]"

definition SimpleFusion_program :: "(operator_site \<Rightarrow> bool) \<Rightarrow> program" where
  "SimpleFusion_program lf =
     \<lparr>function_at = (\<lambda>_. Function_init [])(0 := SimpleFusion_function),
      node_at = (\<lambda>_. Node), lhs_first = lf\<rparr>"

definition SimpleFusion_fib :: "nat \<Rightarrow> (operator_site \<Rightarrow> bool) \<Rightarrow> (nat \<Rightarrow> u32) \<Rightarrow> u32 \<Rightarrow> fault + u32" where
  "SimpleFusion_fib fuel lf mem n =
     run_fresh fuel (SimpleFusion_program lf) (CallNode 0 (ConstNode n)) mem"

text \<open>
  \<^verbatim>\<open>BetterFusion::fib\<close>. Inside the namespace the names \<^verbatim>\<open>ConstNode\<close>, \<^verbatim>\<open>ArgNode\<close>,
  \<^verbatim>\<open>CallNode\<close> and \<^verbatim>\<open>Function\<close> are the namespace's own.
\<close>

definition BetterFusion_function :: Function where
  "BetterFusion_function = Function_init
     [IfNode
        (LessArgConstNode BetterFusion_ArgNode (BetterFusion_ConstNode 2))
        (ReturnNode (BArgNode BetterFusion_ArgNode)),
      ReturnNode
        (AddNode
          (BetterFusion_CallNode 0
            (SubArgConstNode BetterFusion_ArgNode (BetterFusion_ConstNode 1)))
          (BetterFusion_CallNode 0
            (SubArgConstNode BetterFusion_ArgNode (BetterFusion_ConstNode 2))))]"

definition BetterFusion_program :: "(operator_site \<Rightarrow> bool) \<Rightarrow> program" where
  "BetterFusion_program lf =
     \<lparr>function_at = (\<lambda>_. Function_init [])(0 := BetterFusion_function),
      node_at = (\<lambda>_. Node), lhs_first = lf\<rparr>"

definition BetterFusion_fib :: "nat \<Rightarrow> (operator_site \<Rightarrow> bool) \<Rightarrow> (nat \<Rightarrow> u32) \<Rightarrow> u32 \<Rightarrow> fault + u32" where
  "BetterFusion_fib fuel lf mem n =
     run_fresh fuel (BetterFusion_program lf)
       (BetterFusion_CallNode 0 (BConstNode (BetterFusion_ConstNode n))) mem"

text \<open>
  \<^verbatim>\<open>SimplifyCalls::fib\<close>: the callee is the \<^verbatim>\<open>IfElseNode function\<close> itself, with its
  three children as they are after the assignments.
\<close>

definition SimplifyCalls_function :: node where
  "SimplifyCalls_function =
     IfElseNode
       (LessArgConstNode BetterFusion_ArgNode (BetterFusion_ConstNode 2))
       (BArgNode BetterFusion_ArgNode)
       (AddNode
         (CallAnyNode 0 (SubArgConstNode BetterFusion_ArgNode (BetterFusion_ConstNode 1)))
         (CallAnyNode 0 (SubArgConstNode BetterFusion_ArgNode (BetterFusion_ConstNode 2))))"

definition SimplifyCalls_program :: "(operator_site \<Rightarrow> bool) \<Rightarrow> program" where
  "SimplifyCalls_program lf =
     \<lparr>function_at = (\<lambda>_. Function_init []),
      node_at = (\<lambda>_. Node)(0 := SimplifyCalls_function), lhs_first = lf\<rparr>"

definition SimplifyCalls_fib :: "nat \<Rightarrow> (operator_site \<Rightarrow> bool) \<Rightarrow> (nat \<Rightarrow> u32) \<Rightarrow> u32 \<Rightarrow> fault + u32" where
  "SimplifyCalls_fib fuel lf mem n =
     run_fresh fuel (SimplifyCalls_program lf)
       (CallAnyNode 0 (BConstNode (BetterFusion_ConstNode n))) mem"

text \<open>
  The plain recursive \<^verbatim>\<open>fib\<close> at the end of the file:
  \<^verbatim>\<open>if (n < 2) return n; return fib(n - 1) + fib(n - 2);\<close> on \<^verbatim>\<open>uint32_t\<close>.
\<close>

function fib :: "u32 \<Rightarrow> u32" where
  "fib n = (if n < 2 then n else fib (n - 1) + fib (n - 2))"
  by pat_completeness auto
termination
  by (relation "measure unat") (auto simp: word_less_nat_alt unat_sub word_le_nat_alt not_less)

declare fib.simps [simp del]

subsection \<open>Observations of a run\<close>

text \<open>
  \<open>frames_kept c c'\<close>: from \<open>c\<close> to \<open>c'\<close> the stack top is the same and so is every slot
  below it, the arguments of the frames that were active in \<open>c\<close>.
\<close>

definition frames_kept :: "Context \<Rightarrow> Context \<Rightarrow> bool" where
  "frames_kept c c' \<longleftrightarrow>
     stackTop c' = stackTop c \<and> (\<forall>i < unat (stackTop c). stack c' i = stack c i)"

text \<open>\<open>in_frame a c\<close>: \<open>c\<close> is inside a call whose argument, the top slot, is \<open>a\<close>.\<close>

definition in_frame :: "u32 \<Rightarrow> Context \<Rightarrow> bool" where
  "in_frame a c \<longleftrightarrow>
     stackTop c \<noteq> 0 \<and> unat (stackTop c) \<le> STACK_SIZE \<and> stack c (unat (stackTop c) - 1) = a"

text \<open>
  \<open>fired fuel P n ctx\<close> lists, in the order of execution, the values that the
  \<^verbatim>\<open>ReturnNode::eval\<close> calls made during \<open>eval fuel P n ctx\<close> stored into
  \<^verbatim>\<open>ctx->returnValue\<close>: the Returns that fired. It follows \<open>eval\<close> case by case and
  takes every intermediate context from it; \<open>fired_body\<close> does so for the statement
  loop. A run that faults has fired what it fired before the fault.
\<close>

fun fired :: "nat \<Rightarrow> program \<Rightarrow> node \<Rightarrow> Context \<Rightarrow> u32 list"
  and fired_body :: "nat \<Rightarrow> program \<Rightarrow> node list \<Rightarrow> Context \<Rightarrow> u32 list" where
  "fired fuel P Node ctx = []"
| "fired fuel P (ConstNode v) ctx = []"
| "fired fuel P (AddNode lhs rhs) ctx =
     (if lhs_first P InAddNode then
        fired fuel P lhs ctx @
        (case eval fuel P lhs ctx of Inl e \<Rightarrow> [] | Inr (_, c1) \<Rightarrow> fired fuel P rhs c1)
      else
        fired fuel P rhs ctx @
        (case eval fuel P rhs ctx of Inl e \<Rightarrow> [] | Inr (_, c1) \<Rightarrow> fired fuel P lhs c1))"
| "fired fuel P (SubNode lhs rhs) ctx =
     (if lhs_first P InSubNode then
        fired fuel P lhs ctx @
        (case eval fuel P lhs ctx of Inl e \<Rightarrow> [] | Inr (_, c1) \<Rightarrow> fired fuel P rhs c1)
      else
        fired fuel P rhs ctx @
        (case eval fuel P rhs ctx of Inl e \<Rightarrow> [] | Inr (_, c1) \<Rightarrow> fired fuel P lhs c1))"
| "fired fuel P (LessNode lhs rhs) ctx =
     (if lhs_first P InLessNode then
        fired fuel P lhs ctx @
        (case eval fuel P lhs ctx of Inl e \<Rightarrow> [] | Inr (_, c1) \<Rightarrow> fired fuel P rhs c1)
      else
        fired fuel P rhs ctx @
        (case eval fuel P rhs ctx of Inl e \<Rightarrow> [] | Inr (_, c1) \<Rightarrow> fired fuel P lhs c1))"
| "fired fuel P (IfNode condition stmt) ctx =
     fired fuel P condition ctx @
     (case eval fuel P condition ctx of Inl e \<Rightarrow> []
      | Inr (c, c1) \<Rightarrow> if c \<noteq> 0 then fired fuel P stmt c1 else [])"
| "fired 0 P (CallNode f arg) ctx = []"
| "fired (Suc fuel) P (CallNode f arg) ctx =
     fired (Suc fuel) P arg ctx @
     (case eval (Suc fuel) P arg ctx of Inl e \<Rightarrow> []
      | Inr (v, c1) \<Rightarrow>
          (case push_arg v c1 of Inl e \<Rightarrow> []
           | Inr c2 \<Rightarrow> fired_body fuel P (body (function_at P f)) c2))"
| "fired fuel P (ReturnNode rhs) ctx =
     fired fuel P rhs ctx @
     (case eval fuel P rhs ctx of Inl e \<Rightarrow> [] | Inr (v, _) \<Rightarrow> [v])"
| "fired fuel P ArgNode ctx = []"
| "fired fuel P (LessConstNode lhs k) ctx = fired fuel P lhs ctx"
| "fired fuel P (SubConstNode lhs k) ctx = fired fuel P lhs ctx"
| "fired fuel P (BConstNode n) ctx = []"
| "fired fuel P (BArgNode n) ctx = []"
| "fired fuel P (LessArgConstNode lhs rhs) ctx = []"
| "fired fuel P (SubArgConstNode lhs rhs) ctx = []"
| "fired 0 P (BetterFusion_CallNode f arg) ctx = []"
| "fired (Suc fuel) P (BetterFusion_CallNode f arg) ctx =
     fired (Suc fuel) P arg ctx @
     (case eval (Suc fuel) P arg ctx of Inl e \<Rightarrow> []
      | Inr (v, c1) \<Rightarrow>
          (case push_arg v c1 of Inl e \<Rightarrow> []
           | Inr c2 \<Rightarrow> fired_body fuel P (body (function_at P f)) c2))"
| "fired 0 P (CallAnyNode f arg) ctx = []"
| "fired (Suc fuel) P (CallAnyNode f arg) ctx =
     fired (Suc fuel) P arg ctx @
     (case eval (Suc fuel) P arg ctx of Inl e \<Rightarrow> []
      | Inr (v, c1) \<Rightarrow>
          (case push_arg v c1 of Inl e \<Rightarrow> []
           | Inr c2 \<Rightarrow> fired fuel P (node_at P f) c2))"
| "fired fuel P (IfElseNode condition ifBody elseBody) ctx =
     fired fuel P condition ctx @
     (case eval fuel P condition ctx of Inl e \<Rightarrow> []
      | Inr (c, c1) \<Rightarrow> if c \<noteq> 0 then fired fuel P ifBody c1 else fired fuel P elseBody c1)"
| "fired_body fuel P [] ctx = []"
| "fired_body fuel P (statement # rest) ctx =
     fired fuel P statement ctx @
     (case eval fuel P statement ctx of Inl e \<Rightarrow> []
      | Inr (_, c1) \<Rightarrow> if stopForReturn c1 then [] else fired_body fuel P rest c1)"

text \<open>The last element of a list, or \<open>d\<close> when the list is empty.\<close>

definition last_or :: "u32 \<Rightarrow> u32 list \<Rightarrow> u32" where
  "last_or d xs = (if xs = [] then d else last xs)"

subsection \<open>Concrete programs\<close>

text \<open>Memory whose words all happen to be 0, for runs on concrete inputs.\<close>

definition zeroed :: "nat \<Rightarrow> u32" where
  "zeroed i = 0"

text \<open>The two uniform choices of operand order.\<close>

definition left_to_right :: "operator_site \<Rightarrow> bool" where
  "left_to_right s = True"

definition right_to_left :: "operator_site \<Rightarrow> bool" where
  "right_to_left s = False"

text \<open>
  Two functions: the one at address 0 is \<^verbatim>\<open>{ return 7; }\<close>, the one at address 1 has
  no statement. \<open>stale_call\<close> calls the second on the result of calling the first.
\<close>

definition stale_program :: program where
  "stale_program =
     \<lparr>function_at = (\<lambda>_. Function_init [])(0 := Function_init [ReturnNode (ConstNode 7)]),
      node_at = (\<lambda>_. Node), lhs_first = left_to_right\<rparr>"

definition stale_call :: node where
  "stale_call = CallNode 1 (CallNode 0 (ConstNode 0))"

text \<open>
  Two functions: the one at address 0 returns 5 from inside an \<^verbatim>\<open>if\<close>, before a
  statement that would return 6; the one at address 1 calls it as its first statement
  and then returns 9.
\<close>

definition signal_program :: program where
  "signal_program =
     \<lparr>function_at = (\<lambda>_. Function_init [])
        (0 := Function_init
                [IfNode (ConstNode 1) (ReturnNode (ConstNode 5)), ReturnNode (ConstNode 6)],
         1 := Function_init
                [CallNode 0 (ConstNode 0), ReturnNode (ConstNode 9)]),
      node_at = (\<lambda>_. Node), lhs_first = left_to_right\<rparr>"




section \<open>Node-level properties\<close>

subsection \<open>Fused nodes against their unfused compositions\<close>

lemma ConstNode_compute_eq: "ConstNode_compute n ctx = (case n of BetterFusion_ConstNode v \<Rightarrow> Inr (v, ctx))"
  by (cases n) simp

lemma ArgNode_compute_eq: "ArgNode_compute n ctx = read_arg ctx"
  by (cases n) simp

lemma LessArgConstNode_compute_eq:
  "LessArgConstNode_compute lf a (BetterFusion_ConstNode k) ctx =
     (case read_arg ctx of Inl e \<Rightarrow> Inl e | Inr (v, c) \<Rightarrow> Inr (of_bool32 (v < k), c))"
  by (cases a)
    (simp add: LessArgConstNode_compute_def operands_def read_arg_def split: sum.splits)

lemma SubArgConstNode_compute_eq:
  "SubArgConstNode_compute lf a (BetterFusion_ConstNode k) ctx =
     (case read_arg ctx of Inl e \<Rightarrow> Inl e | Inr (v, c) \<Rightarrow> Inr (v - k, c))"
  by (cases a)
    (simp add: SubArgConstNode_compute_def operands_def read_arg_def split: sum.splits)

lemma read_arg_same_ctx: "read_arg ctx = Inr (v, c) \<Longrightarrow> c = ctx"
  by (auto simp: read_arg_def split: if_splits)

lemma eval_LessConstNode_unfused:
  "eval fuel P (LessConstNode lhs k) ctx = eval fuel P (LessNode lhs (ConstNode k)) ctx"
  by (cases "lhs_first P InLessNode") (simp_all split: sum.splits prod.splits)

lemma eval_SubConstNode_unfused:
  "eval fuel P (SubConstNode lhs k) ctx = eval fuel P (SubNode lhs (ConstNode k)) ctx"
  by (cases "lhs_first P InSubNode") (simp_all split: sum.splits prod.splits)

lemma eval_LessArgConstNode_unfused:
  "eval fuel P (LessArgConstNode a (BetterFusion_ConstNode k)) ctx =
     eval fuel P (LessNode ArgNode (ConstNode k)) ctx"
  by (cases "lhs_first P InLessNode")
    (auto simp: LessArgConstNode_compute_eq split: sum.splits dest: read_arg_same_ctx)

lemma eval_SubArgConstNode_unfused:
  "eval fuel P (SubArgConstNode a (BetterFusion_ConstNode k)) ctx =
     eval fuel P (SubNode ArgNode (ConstNode k)) ctx"
  by (cases "lhs_first P InSubNode")
    (auto simp: SubArgConstNode_compute_eq split: sum.splits dest: read_arg_same_ctx)

text \<open>
  C3. Every fused node evaluates, in every context, with every fuel and in either
  operand order, to the outcome (value, context or fault) of the unfused composition it
  replaces: \<open>LessConstNode lhs k\<close> to that of \<open>LessNode lhs (ConstNode k)\<close>,
  \<open>SubConstNode lhs k\<close> to that of \<open>SubNode lhs (ConstNode k)\<close>, and the two
  argument-constant nodes to those of \<open>LessNode\<close> and \<open>SubNode\<close> over an argument read
  and a constant, built from the nodes of stage 1 or from the typed children they hold.
\<close>

theorem fused_node_equals_unfused:
  "eval fuel P (LessConstNode lhs k) ctx = eval fuel P (LessNode lhs (ConstNode k)) ctx \<and>
   eval fuel P (SubConstNode lhs k) ctx = eval fuel P (SubNode lhs (ConstNode k)) ctx \<and>
   eval fuel P (LessArgConstNode a (BetterFusion_ConstNode k)) ctx =
     eval fuel P (LessNode ArgNode (ConstNode k)) ctx \<and>
   eval fuel P (SubArgConstNode a (BetterFusion_ConstNode k)) ctx =
     eval fuel P (SubNode ArgNode (ConstNode k)) ctx \<and>
   eval fuel P (LessArgConstNode a c) ctx = eval fuel P (LessNode (BArgNode a) (BConstNode c)) ctx \<and>
   eval fuel P (SubArgConstNode a c) ctx = eval fuel P (SubNode (BArgNode a) (BConstNode c)) ctx"
proof -
  obtain k' where c: "c = BetterFusion_ConstNode k'"
    by (cases c) simp
  have typed_less:
    "eval fuel P (LessNode (BArgNode a) (BConstNode c)) ctx = eval fuel P (LessNode ArgNode (ConstNode k')) ctx"
    by (cases "lhs_first P InLessNode") (simp_all add: c ArgNode_compute_eq split: sum.splits prod.splits)
  have typed_sub:
    "eval fuel P (SubNode (BArgNode a) (BConstNode c)) ctx = eval fuel P (SubNode ArgNode (ConstNode k')) ctx"
    by (cases "lhs_first P InSubNode") (simp_all add: c ArgNode_compute_eq split: sum.splits prod.splits)
  show ?thesis
    unfolding typed_less typed_sub
    unfolding c
    using eval_LessConstNode_unfused eval_SubConstNode_unfused
      eval_LessArgConstNode_unfused eval_SubArgConstNode_unfused
    by blast
qed

section \<open>How a successful evaluation decomposes\<close>

lemma bind_outcome_Inr:
  "((case x of Inl e \<Rightarrow> Inl e | Inr p \<Rightarrow> f p) = Inr r) \<longleftrightarrow> (\<exists>p. x = Inr p \<and> f p = Inr r)"
  by (cases x) auto

lemma CallNode_Inr:
  assumes "eval fuel P (CallNode f arg) ctx = Inr (v, c')"
  shows "\<exists>k a c1 c2 c3. fuel = Suc k \<and> eval (Suc k) P arg ctx = Inr (a, c1) \<and> push_arg a c1 = Inr c2 \<and>
           run_body k P (body (function_at P f)) c2 = Inr c3 \<and> c' = pop_frame c3 \<and> v = returnValue c3"
proof (cases fuel)
  case 0
  with assms show ?thesis by simp
next
  case (Suc k)
  with assms show ?thesis
    by (auto simp: bind_outcome_Inr pop_frame_def)
qed

lemma BetterFusion_CallNode_Inr:
  assumes "eval fuel P (BetterFusion_CallNode f arg) ctx = Inr (v, c')"
  shows "\<exists>k a c1 c2 c3. fuel = Suc k \<and> eval (Suc k) P arg ctx = Inr (a, c1) \<and> push_arg a c1 = Inr c2 \<and>
           run_body k P (body (function_at P f)) c2 = Inr c3 \<and> c' = pop_frame c3 \<and> v = returnValue c3"
proof (cases fuel)
  case 0
  with assms show ?thesis by simp
next
  case (Suc k)
  with assms show ?thesis
    by (auto simp: bind_outcome_Inr pop_frame_def)
qed

lemma CallAnyNode_Inr:
  assumes "eval fuel P (CallAnyNode f arg) ctx = Inr (v, c')"
  shows "\<exists>k a c1 c2 c3. fuel = Suc k \<and> eval (Suc k) P arg ctx = Inr (a, c1) \<and> push_arg a c1 = Inr c2 \<and>
           eval k P (node_at P f) c2 = Inr (v, c3) \<and> c' = pop_frame c3"
proof (cases fuel)
  case 0
  with assms show ?thesis by simp
next
  case (Suc k)
  with assms show ?thesis
    by (auto simp: bind_outcome_Inr)
qed


lemma AddNode_Inr:
  assumes "eval fuel P (AddNode lhs rhs) ctx = Inr (v, c')"
  shows "\<exists>a b c1. v = a + b \<and>
     (if lhs_first P InAddNode then eval fuel P lhs ctx = Inr (a, c1) \<and> eval fuel P rhs c1 = Inr (b, c')
      else eval fuel P rhs ctx = Inr (b, c1) \<and> eval fuel P lhs c1 = Inr (a, c'))"
  using assms by (cases "lhs_first P InAddNode") (auto simp: bind_outcome_Inr)

lemma SubNode_Inr:
  assumes "eval fuel P (SubNode lhs rhs) ctx = Inr (v, c')"
  shows "\<exists>a b c1. v = a - b \<and>
     (if lhs_first P InSubNode then eval fuel P lhs ctx = Inr (a, c1) \<and> eval fuel P rhs c1 = Inr (b, c')
      else eval fuel P rhs ctx = Inr (b, c1) \<and> eval fuel P lhs c1 = Inr (a, c'))"
  using assms by (cases "lhs_first P InSubNode") (auto simp: bind_outcome_Inr)

lemma LessNode_Inr:
  assumes "eval fuel P (LessNode lhs rhs) ctx = Inr (v, c')"
  shows "\<exists>a b c1. v = of_bool32 (a < b) \<and>
     (if lhs_first P InLessNode then eval fuel P lhs ctx = Inr (a, c1) \<and> eval fuel P rhs c1 = Inr (b, c')
      else eval fuel P rhs ctx = Inr (b, c1) \<and> eval fuel P lhs c1 = Inr (a, c'))"
  using assms by (cases "lhs_first P InLessNode") (auto simp: bind_outcome_Inr)


lemma IfNode_Inr:
  assumes "eval fuel P (IfNode condition stmt) ctx = Inr (v, c')"
  shows "\<exists>c c1. v = 0 \<and> eval fuel P condition ctx = Inr (c, c1) \<and>
     (if c \<noteq> 0 then (\<exists>w. eval fuel P stmt c1 = Inr (w, c')) else c' = c1)"
proof -
  from assms obtain c c1 where 1: "eval fuel P condition ctx = Inr (c, c1)"
    by (cases "eval fuel P condition ctx") auto
  show ?thesis
  proof (cases "c = 0")
    case True
    with assms 1 show ?thesis by simp
  next
    case False
    with assms 1 obtain w where "eval fuel P stmt c1 = Inr (w, c')" "v = 0"
      by (cases "eval fuel P stmt c1") auto
    with 1 False show ?thesis by auto
  qed
qed

lemma IfElseNode_Inr:
  assumes "eval fuel P (IfElseNode condition ifBody elseBody) ctx = Inr (v, c')"
  shows "\<exists>c c1. eval fuel P condition ctx = Inr (c, c1) \<and>
     (if c \<noteq> 0 then eval fuel P ifBody c1 = Inr (v, c') else eval fuel P elseBody c1 = Inr (v, c'))"
proof -
  from assms obtain c c1 where 1: "eval fuel P condition ctx = Inr (c, c1)"
    by (cases "eval fuel P condition ctx") auto
  with assms show ?thesis
    by (cases "c = 0") auto
qed

lemma ReturnNode_Inr:
  assumes "eval fuel P (ReturnNode rhs) ctx = Inr (v, c')"
  shows "\<exists>w c1. v = 0 \<and> eval fuel P rhs ctx = Inr (w, c1) \<and>
     c' = c1\<lparr>returnValue := w, stopForReturn := True\<rparr>"
  using assms by (cases "eval fuel P rhs ctx") auto

lemma LessConstNode_Inr:
  assumes "eval fuel P (LessConstNode lhs k) ctx = Inr (v, c')"
  shows "\<exists>a. v = of_bool32 (a < k) \<and> eval fuel P lhs ctx = Inr (a, c')"
  using assms by (cases "eval fuel P lhs ctx") auto

lemma SubConstNode_Inr:
  assumes "eval fuel P (SubConstNode lhs k) ctx = Inr (v, c')"
  shows "\<exists>a. v = a - k \<and> eval fuel P lhs ctx = Inr (a, c')"
  using assms by (cases "eval fuel P lhs ctx") auto

lemma run_body_Cons_Inr:
  assumes "run_body fuel P (statement # rest) ctx = Inr c'"
  shows "\<exists>w c1. eval fuel P statement ctx = Inr (w, c1) \<and>
     (if stopForReturn c1 then c' = c1 else run_body fuel P rest c1 = Inr c')"
proof -
  from assms obtain w c1 where 1: "eval fuel P statement ctx = Inr (w, c1)"
    by (cases "eval fuel P statement ctx") auto
  with assms show ?thesis
    by (cases "stopForReturn c1") auto
qed

lemma compute_kept:
  "ConstNode_compute k c = Inr (v, c') \<Longrightarrow> c' = c"
  "ArgNode_compute a c = Inr (v, c') \<Longrightarrow> c' = c"
  "LessArgConstNode_compute lf a k c = Inr (v, c') \<Longrightarrow> c' = c"
  "SubArgConstNode_compute lf a k c = Inr (v, c') \<Longrightarrow> c' = c"
  by (cases k; cases a; auto simp: read_arg_def LessArgConstNode_compute_def SubArgConstNode_compute_def operands_def split: if_splits)+

section \<open>The stack discipline\<close>

lemma frames_kept_refl: "frames_kept c c"
  by (simp add: frames_kept_def)

lemma frames_kept_trans: "frames_kept a b \<Longrightarrow> frames_kept b c \<Longrightarrow> frames_kept a c"
  by (simp add: frames_kept_def)

lemma frames_kept_return: "frames_kept a b \<Longrightarrow> frames_kept a (b\<lparr>returnValue := v, stopForReturn := s\<rparr>)"
  by (simp add: frames_kept_def)

lemma frames_kept_call:
  assumes "push_arg v c1 = Inr c2" "frames_kept c2 c3"
  shows "frames_kept c1 (pop_frame c3)"
proof -
  from assms(1) have lt: "unat (stackTop c1) < STACK_SIZE"
    and c2: "c2 = c1\<lparr>stack := (stack c1)(unat (stackTop c1) := v), stackTop := stackTop c1 + 1\<rparr>"
    by (auto simp: push_arg_def split: if_splits)
  have "unat (stackTop c1 + 1) = unat (stackTop c1) + 1"
    using lt by (simp add: STACK_SIZE_def unat_word_ariths)
  with assms(2) c2 show ?thesis
    by (auto simp: frames_kept_def pop_frame_def)
qed

lemma unat_top_succ: "unat (t :: u32) < STACK_SIZE \<Longrightarrow> unat (t + 1) = unat t + 1"
  by (simp add: STACK_SIZE_def unat_word_ariths)

lemma push_arg_ok:
  assumes "unat (stackTop c) < STACK_SIZE"
  shows "push_arg a c = Inr (c\<lparr>stack := (stack c)(unat (stackTop c) := a), stackTop := stackTop c + 1\<rparr>)"
  using assms by (simp add: push_arg_def)

lemma in_frame_push:
  assumes "unat (stackTop c) < STACK_SIZE"
  shows "in_frame a (c\<lparr>stack := (stack c)(unat (stackTop c) := a), stackTop := stackTop c + 1\<rparr>)"
  using assms unat_top_succ[OF assms] by (auto simp: in_frame_def)

lemma in_frame_kept: "in_frame a c \<Longrightarrow> frames_kept c c' \<Longrightarrow> in_frame a c'"
  by (auto simp: in_frame_def frames_kept_def unat_gt_0)

lemma read_arg_in_frame: "in_frame a c \<Longrightarrow> read_arg c = Inr (a, c)"
  by (auto simp: in_frame_def read_arg_def unat_minus_one STACK_SIZE_def)

lemma eval_frames_kept0:
  "(\<forall>v c'. eval fuel P n ctx = Inr (v, c') \<longrightarrow> frames_kept ctx c')"
  "(\<forall>c'. run_body fuel P ns ctx = Inr c' \<longrightarrow> frames_kept ctx c')"
proof (induction fuel P n ctx and fuel P ns ctx rule: eval_run_body.induct)
  case (1 fuel P ctx)
  then show ?case by (simp add: frames_kept_refl)
next
  case (2 fuel P v ctx)
  then show ?case by (simp add: frames_kept_refl)
next
  case (3 fuel P lhs rhs ctx)
  then show ?case
    by (cases "lhs_first P InAddNode") (auto simp: bind_outcome_Inr intro: frames_kept_trans)
next
  case (4 fuel P lhs rhs ctx)
  then show ?case
    by (cases "lhs_first P InSubNode") (auto simp: bind_outcome_Inr intro: frames_kept_trans)
next
  case (5 fuel P lhs rhs ctx)
  then show ?case
    by (cases "lhs_first P InLessNode") (auto simp: bind_outcome_Inr intro: frames_kept_trans)
next
  case (6 fuel P condition stmt ctx)
  then show ?case
    by (auto simp: bind_outcome_Inr split: if_splits intro: frames_kept_trans)
next
  case (7 P f arg ctx)
  then show ?case by simp
next
  case (8 fuel P f arg ctx)
  then show ?case
    by (auto simp: bind_outcome_Inr) (meson frames_kept_trans frames_kept_call)
next
  case (9 fuel P rhs ctx)
  then show ?case
    by (auto simp: bind_outcome_Inr intro: frames_kept_return)
next
  case (10 fuel P ctx)
  then show ?case by (auto simp: read_arg_def frames_kept_refl split: if_splits)
next
  case (11 fuel P lhs k ctx)
  then show ?case by (auto simp: bind_outcome_Inr)
next
  case (12 fuel P lhs k ctx)
  then show ?case by (auto simp: bind_outcome_Inr)
next
  case (13 fuel P n ctx)
  then show ?case by (auto dest: compute_kept simp: frames_kept_refl)
next
  case (14 fuel P n ctx)
  then show ?case by (auto dest: compute_kept simp: frames_kept_refl)
next
  case (15 fuel P lhs rhs ctx)
  then show ?case by (auto dest: compute_kept simp: frames_kept_refl)
next
  case (16 fuel P lhs rhs ctx)
  then show ?case by (auto dest: compute_kept simp: frames_kept_refl)
next
  case (17 P f arg ctx)
  then show ?case by simp
next
  case (18 fuel P f arg ctx)
  then show ?case
    by (auto simp: bind_outcome_Inr) (meson frames_kept_trans frames_kept_call)
next
  case (19 P f arg ctx)
  then show ?case by simp
next
  case (20 fuel P f arg ctx)
  then show ?case
    by (auto simp: bind_outcome_Inr) (meson frames_kept_trans frames_kept_call)
next
  case (21 fuel P condition ifBody elseBody ctx)
  then show ?case
    by (auto simp: bind_outcome_Inr split: if_splits intro: frames_kept_trans)
next
  case (22 fuel P ctx)
  then show ?case by (simp add: frames_kept_refl)
next
  case (23 fuel P statement rest ctx)
  then show ?case
    by (auto simp: bind_outcome_Inr split: if_splits intro: frames_kept_trans)
qed

lemma eval_frames_kept: "eval fuel P n ctx = Inr (v, c') \<Longrightarrow> frames_kept ctx c'"
  using eval_frames_kept0(1) by blast

lemma run_body_frames_kept: "run_body fuel P ns ctx = Inr c' \<Longrightarrow> frames_kept ctx c'"
  using eval_frames_kept0(2) by blast

section \<open>The return value register\<close>

lemma last_or_simps [simp]:
  "last_or d [] = d"
  "last_or d (xs @ ys) = last_or (last_or d xs) ys"
  "last_or d [x] = x"
  by (auto simp: last_or_def)

lemma push_arg_returnValue: "push_arg v c = Inr c2 \<Longrightarrow> returnValue c2 = returnValue c"
  by (auto simp: push_arg_def split: if_splits)

lemma returnValue_pop: "returnValue (pop_frame c) = returnValue c"
  by (simp add: pop_frame_def)

lemma returnValue_fired0:
  "(\<forall>v c'. eval fuel P n ctx = Inr (v, c') \<longrightarrow> returnValue c' = last_or (returnValue ctx) (fired fuel P n ctx))"
  "(\<forall>c'. run_body fuel P ns ctx = Inr c' \<longrightarrow> returnValue c' = last_or (returnValue ctx) (fired_body fuel P ns ctx))"
proof (induction fuel P n ctx and fuel P ns ctx rule: eval_run_body.induct)
  case (1 fuel P ctx)
  then show ?case by simp
next
  case (2 fuel P v ctx)
  then show ?case by simp
next
  case (3 fuel P lhs rhs ctx)
  show ?case
  proof (intro allI impI)
    fix v c'
    assume "eval fuel P (AddNode lhs rhs) ctx = Inr (v, c')"
    from AddNode_Inr[OF this] obtain a b c1 where ev:
      "if lhs_first P InAddNode then eval fuel P lhs ctx = Inr (a, c1) \<and> eval fuel P rhs c1 = Inr (b, c')
       else eval fuel P rhs ctx = Inr (b, c1) \<and> eval fuel P lhs c1 = Inr (a, c')"
      by blast
    show "returnValue c' = last_or (returnValue ctx) (fired fuel P (AddNode lhs rhs) ctx)"
    proof (cases "lhs_first P InAddNode")
      case True
      with ev have 1: "eval fuel P lhs ctx = Inr (a, c1)" and 2: "eval fuel P rhs c1 = Inr (b, c')"
        by simp_all
      from 3(1)[OF True] 1 have "returnValue c1 = last_or (returnValue ctx) (fired fuel P lhs ctx)"
        by simp
      moreover from 3(2)[OF True 1 refl] 2 have "returnValue c' = last_or (returnValue c1) (fired fuel P rhs c1)"
        by simp
      ultimately show ?thesis
        using True 1 by simp
    next
      case False
      with ev have 1: "eval fuel P rhs ctx = Inr (b, c1)" and 2: "eval fuel P lhs c1 = Inr (a, c')"
        by simp_all
      from 3(3)[OF False] 1 have "returnValue c1 = last_or (returnValue ctx) (fired fuel P rhs ctx)"
        by simp
      moreover from 3(4)[OF False 1 refl] 2 have "returnValue c' = last_or (returnValue c1) (fired fuel P lhs c1)"
        by simp
      ultimately show ?thesis
        using False 1 by simp
    qed
  qed
next
  case (4 fuel P lhs rhs ctx)
  show ?case
  proof (intro allI impI)
    fix v c'
    assume "eval fuel P (SubNode lhs rhs) ctx = Inr (v, c')"
    from SubNode_Inr[OF this] obtain a b c1 where ev:
      "if lhs_first P InSubNode then eval fuel P lhs ctx = Inr (a, c1) \<and> eval fuel P rhs c1 = Inr (b, c')
       else eval fuel P rhs ctx = Inr (b, c1) \<and> eval fuel P lhs c1 = Inr (a, c')"
      by blast
    show "returnValue c' = last_or (returnValue ctx) (fired fuel P (SubNode lhs rhs) ctx)"
    proof (cases "lhs_first P InSubNode")
      case True
      with ev have 1: "eval fuel P lhs ctx = Inr (a, c1)" and 2: "eval fuel P rhs c1 = Inr (b, c')"
        by simp_all
      from 4(1)[OF True] 1 have "returnValue c1 = last_or (returnValue ctx) (fired fuel P lhs ctx)"
        by simp
      moreover from 4(2)[OF True 1 refl] 2 have "returnValue c' = last_or (returnValue c1) (fired fuel P rhs c1)"
        by simp
      ultimately show ?thesis
        using True 1 by simp
    next
      case False
      with ev have 1: "eval fuel P rhs ctx = Inr (b, c1)" and 2: "eval fuel P lhs c1 = Inr (a, c')"
        by simp_all
      from 4(3)[OF False] 1 have "returnValue c1 = last_or (returnValue ctx) (fired fuel P rhs ctx)"
        by simp
      moreover from 4(4)[OF False 1 refl] 2 have "returnValue c' = last_or (returnValue c1) (fired fuel P lhs c1)"
        by simp
      ultimately show ?thesis
        using False 1 by simp
    qed
  qed
next
  case (5 fuel P lhs rhs ctx)
  show ?case
  proof (intro allI impI)
    fix v c'
    assume "eval fuel P (LessNode lhs rhs) ctx = Inr (v, c')"
    from LessNode_Inr[OF this] obtain a b c1 where ev:
      "if lhs_first P InLessNode then eval fuel P lhs ctx = Inr (a, c1) \<and> eval fuel P rhs c1 = Inr (b, c')
       else eval fuel P rhs ctx = Inr (b, c1) \<and> eval fuel P lhs c1 = Inr (a, c')"
      by blast
    show "returnValue c' = last_or (returnValue ctx) (fired fuel P (LessNode lhs rhs) ctx)"
    proof (cases "lhs_first P InLessNode")
      case True
      with ev have 1: "eval fuel P lhs ctx = Inr (a, c1)" and 2: "eval fuel P rhs c1 = Inr (b, c')"
        by simp_all
      from 5(1)[OF True] 1 have "returnValue c1 = last_or (returnValue ctx) (fired fuel P lhs ctx)"
        by simp
      moreover from 5(2)[OF True 1 refl] 2 have "returnValue c' = last_or (returnValue c1) (fired fuel P rhs c1)"
        by simp
      ultimately show ?thesis
        using True 1 by simp
    next
      case False
      with ev have 1: "eval fuel P rhs ctx = Inr (b, c1)" and 2: "eval fuel P lhs c1 = Inr (a, c')"
        by simp_all
      from 5(3)[OF False] 1 have "returnValue c1 = last_or (returnValue ctx) (fired fuel P rhs ctx)"
        by simp
      moreover from 5(4)[OF False 1 refl] 2 have "returnValue c' = last_or (returnValue c1) (fired fuel P lhs c1)"
        by simp
      ultimately show ?thesis
        using False 1 by simp
    qed
  qed
next
  case (6 fuel P condition stmt ctx)
  show ?case
  proof (intro allI impI)
    fix v c'
    assume "eval fuel P (IfNode condition stmt) ctx = Inr (v, c')"
    from IfNode_Inr[OF this] obtain c c1 where 1: "eval fuel P condition ctx = Inr (c, c1)"
      and 2: "if c \<noteq> 0 then (\<exists>w. eval fuel P stmt c1 = Inr (w, c')) else c' = c1"
      by blast
    from 6(1) 1 have r1: "returnValue c1 = last_or (returnValue ctx) (fired fuel P condition ctx)"
      by simp
    show "returnValue c' = last_or (returnValue ctx) (fired fuel P (IfNode condition stmt) ctx)"
    proof (cases "c = 0")
      case True
      with 1 2 r1 show ?thesis by simp
    next
      case False
      with 2 obtain w where 3: "eval fuel P stmt c1 = Inr (w, c')" by auto
      from 6(2)[OF 1 refl False] 3 have "returnValue c' = last_or (returnValue c1) (fired fuel P stmt c1)"
        by simp
      with 1 r1 False show ?thesis by simp
    qed
  qed
next
  case (7 P f arg ctx)
  then show ?case by simp
next
  case (8 fuel P f arg ctx)
  show ?case
  proof (intro allI impI)
    fix v c'
    assume "eval (Suc fuel) P (CallNode f arg) ctx = Inr (v, c')"
    from CallNode_Inr[OF this] obtain a c1 c2 c3 where
      1: "eval (Suc fuel) P arg ctx = Inr (a, c1)" and 2: "push_arg a c1 = Inr c2"
      and 3: "run_body fuel P (body (function_at P f)) c2 = Inr c3" and 4: "c' = pop_frame c3"
      by auto
    from 8(1) 1 have "returnValue c1 = last_or (returnValue ctx) (fired (Suc fuel) P arg ctx)"
      by simp
    moreover from 8(2)[OF 1 refl 2] 3
    have "returnValue c3 = last_or (returnValue c2) (fired_body fuel P (body (function_at P f)) c2)"
      by simp
    ultimately show "returnValue c' = last_or (returnValue ctx) (fired (Suc fuel) P (CallNode f arg) ctx)"
      using 1 2 4 by (simp add: returnValue_pop push_arg_returnValue[OF 2])
  qed
next
  case (9 fuel P rhs ctx)
  show ?case
  proof (intro allI impI)
    fix v c'
    assume "eval fuel P (ReturnNode rhs) ctx = Inr (v, c')"
    from ReturnNode_Inr[OF this] obtain w c1 where 1: "eval fuel P rhs ctx = Inr (w, c1)"
      and 2: "c' = c1\<lparr>returnValue := w, stopForReturn := True\<rparr>"
      by blast
    then show "returnValue c' = last_or (returnValue ctx) (fired fuel P (ReturnNode rhs) ctx)"
      by simp
  qed
next
  case (10 fuel P ctx)
  then show ?case by (auto simp: read_arg_def split: if_splits)
next
  case (11 fuel P lhs k ctx)
  then show ?case by (auto dest!: LessConstNode_Inr simp del: eval.simps)
next
  case (12 fuel P lhs k ctx)
  then show ?case by (auto dest!: SubConstNode_Inr simp del: eval.simps)
next
  case (13 fuel P n ctx)
  then show ?case by (auto dest: compute_kept)
next
  case (14 fuel P n ctx)
  then show ?case by (auto dest: compute_kept)
next
  case (15 fuel P lhs rhs ctx)
  then show ?case by (auto dest: compute_kept)
next
  case (16 fuel P lhs rhs ctx)
  then show ?case by (auto dest: compute_kept)
next
  case (17 P f arg ctx)
  then show ?case by simp
next
  case (18 fuel P f arg ctx)
  show ?case
  proof (intro allI impI)
    fix v c'
    assume "eval (Suc fuel) P (BetterFusion_CallNode f arg) ctx = Inr (v, c')"
    from BetterFusion_CallNode_Inr[OF this] obtain a c1 c2 c3 where
      1: "eval (Suc fuel) P arg ctx = Inr (a, c1)" and 2: "push_arg a c1 = Inr c2"
      and 3: "run_body fuel P (body (function_at P f)) c2 = Inr c3" and 4: "c' = pop_frame c3"
      by auto
    from 18(1) 1 have "returnValue c1 = last_or (returnValue ctx) (fired (Suc fuel) P arg ctx)"
      by simp
    moreover from 18(2)[OF 1 refl 2] 3
    have "returnValue c3 = last_or (returnValue c2) (fired_body fuel P (body (function_at P f)) c2)"
      by simp
    ultimately show "returnValue c' = last_or (returnValue ctx) (fired (Suc fuel) P (BetterFusion_CallNode f arg) ctx)"
      using 1 2 4 by (simp add: returnValue_pop push_arg_returnValue[OF 2])
  qed
next
  case (19 P f arg ctx)
  then show ?case by simp
next
  case (20 fuel P f arg ctx)
  show ?case
  proof (intro allI impI)
    fix v c'
    assume "eval (Suc fuel) P (CallAnyNode f arg) ctx = Inr (v, c')"
    from CallAnyNode_Inr[OF this] obtain a c1 c2 c3 where
      1: "eval (Suc fuel) P arg ctx = Inr (a, c1)" and 2: "push_arg a c1 = Inr c2"
      and 3: "eval fuel P (node_at P f) c2 = Inr (v, c3)" and 4: "c' = pop_frame c3"
      by auto
    from 20(1) 1 have "returnValue c1 = last_or (returnValue ctx) (fired (Suc fuel) P arg ctx)"
      by simp
    moreover from 20(2)[OF 1 refl 2] 3
    have "returnValue c3 = last_or (returnValue c2) (fired fuel P (node_at P f) c2)"
      by simp
    ultimately show "returnValue c' = last_or (returnValue ctx) (fired (Suc fuel) P (CallAnyNode f arg) ctx)"
      using 1 2 4 by (simp add: returnValue_pop push_arg_returnValue[OF 2])
  qed
next
  case (21 fuel P condition ifBody elseBody ctx)
  show ?case
  proof (intro allI impI)
    fix v c'
    assume "eval fuel P (IfElseNode condition ifBody elseBody) ctx = Inr (v, c')"
    from IfElseNode_Inr[OF this] obtain c c1 where 1: "eval fuel P condition ctx = Inr (c, c1)"
      and 2: "if c \<noteq> 0 then eval fuel P ifBody c1 = Inr (v, c') else eval fuel P elseBody c1 = Inr (v, c')"
      by blast
    from 21(1) 1 have r1: "returnValue c1 = last_or (returnValue ctx) (fired fuel P condition ctx)"
      by simp
    show "returnValue c' = last_or (returnValue ctx) (fired fuel P (IfElseNode condition ifBody elseBody) ctx)"
    proof (cases "c = 0")
      case True
      with 2 have 3: "eval fuel P elseBody c1 = Inr (v, c')" by simp
      from 21(3)[OF 1 refl] True 3 have "returnValue c' = last_or (returnValue c1) (fired fuel P elseBody c1)"
        by simp
      with 1 r1 True show ?thesis by simp
    next
      case False
      with 2 have 3: "eval fuel P ifBody c1 = Inr (v, c')" by simp
      from 21(2)[OF 1 refl False] 3 have "returnValue c' = last_or (returnValue c1) (fired fuel P ifBody c1)"
        by simp
      with 1 r1 False show ?thesis by simp
    qed
  qed
next
  case (22 fuel P ctx)
  then show ?case by simp
next
  case (23 fuel P statement rest ctx)
  show ?case
  proof (intro allI impI)
    fix c'
    assume "run_body fuel P (statement # rest) ctx = Inr c'"
    from run_body_Cons_Inr[OF this] obtain w c1 where 1: "eval fuel P statement ctx = Inr (w, c1)"
      and 2: "if stopForReturn c1 then c' = c1 else run_body fuel P rest c1 = Inr c'"
      by blast
    from 23(1) 1 have r1: "returnValue c1 = last_or (returnValue ctx) (fired fuel P statement ctx)"
      by simp
    show "returnValue c' = last_or (returnValue ctx) (fired_body fuel P (statement # rest) ctx)"
    proof (cases "stopForReturn c1")
      case True
      with 1 2 r1 show ?thesis by simp
    next
      case False
      with 2 have 3: "run_body fuel P rest c1 = Inr c'" by simp
      from 23(2)[OF 1 refl False] 3 have "returnValue c' = last_or (returnValue c1) (fired_body fuel P rest c1)"
        by simp
      with 1 r1 False show ?thesis by simp
    qed
  qed
qed

lemma eval_returnValue:
  "eval fuel P n ctx = Inr (v, c') \<Longrightarrow> returnValue c' = last_or (returnValue ctx) (fired fuel P n ctx)"
  using returnValue_fired0(1) by blast

lemma run_body_returnValue:
  "run_body fuel P ns ctx = Inr c' \<Longrightarrow>
   returnValue c' = last_or (returnValue ctx) (fired_body fuel P ns ctx)"
  using returnValue_fired0(2) by blast

section \<open>The four drivers compute fib\<close>

lemma fib_base: "a < 2 \<Longrightarrow> fib a = a"
  by (subst fib.simps) simp

lemma fib_step: "\<not> a < 2 \<Longrightarrow> fib a = fib (a - 1) + fib (a - 2)"
  by (subst fib.simps) simp

lemma Simplest_program_simps:
  "body (function_at (Simplest_program lf) 0) =
     [IfNode (LessNode ArgNode (ConstNode 2)) (ReturnNode ArgNode),
      ReturnNode
        (AddNode
          (CallNode 0 (SubNode ArgNode (ConstNode 1)))
          (CallNode 0 (SubNode ArgNode (ConstNode 2))))]"
  "lhs_first (Simplest_program lf) = lf"
  by (simp_all add: Simplest_program_def Simplest_function_def Function_init_def)

lemma SimpleFusion_program_simps:
  "body (function_at (SimpleFusion_program lf) 0) =
     [IfNode (LessConstNode ArgNode 2) (ReturnNode ArgNode),
      ReturnNode
        (AddNode
          (CallNode 0 (SubConstNode ArgNode 1))
          (CallNode 0 (SubConstNode ArgNode 2)))]"
  "lhs_first (SimpleFusion_program lf) = lf"
  by (simp_all add: SimpleFusion_program_def SimpleFusion_function_def Function_init_def)

lemma BetterFusion_program_simps:
  "body (function_at (BetterFusion_program lf) 0) =
     [IfNode
        (LessArgConstNode BetterFusion_ArgNode (BetterFusion_ConstNode 2))
        (ReturnNode (BArgNode BetterFusion_ArgNode)),
      ReturnNode
        (AddNode
          (BetterFusion_CallNode 0
            (SubArgConstNode BetterFusion_ArgNode (BetterFusion_ConstNode 1)))
          (BetterFusion_CallNode 0
            (SubArgConstNode BetterFusion_ArgNode (BetterFusion_ConstNode 2))))]"
  "lhs_first (BetterFusion_program lf) = lf"
  by (simp_all add: BetterFusion_program_def BetterFusion_function_def Function_init_def)

lemma SimplifyCalls_program_simps:
  "node_at (SimplifyCalls_program lf) 0 =
     IfElseNode
       (LessArgConstNode BetterFusion_ArgNode (BetterFusion_ConstNode 2))
       (BArgNode BetterFusion_ArgNode)
       (AddNode
         (CallAnyNode 0 (SubArgConstNode BetterFusion_ArgNode (BetterFusion_ConstNode 1)))
         (CallAnyNode 0 (SubArgConstNode BetterFusion_ArgNode (BetterFusion_ConstNode 2))))"
  "lhs_first (SimplifyCalls_program lf) = lf"
  by (simp_all add: SimplifyCalls_program_def SimplifyCalls_function_def)

lemma unat_sub_le:
  assumes "\<not> a < (2::u32)"
  shows "unat (a - 1) = unat a - 1" "unat (a - 2) = unat a - 2" "2 \<le> unat a"
  using assms by (auto simp: word_less_nat_alt unat_sub word_le_nat_alt not_less)

text \<open>
  A call of the function of \<^verbatim>\<open>Simplest::fib\<close> on an argument expression that evaluates
  to \<open>a\<close> without touching the context: it returns \<open>fib a\<close> when the frames it needs fit
  in the stack, and runs into the store past the end of the array when they do not.
\<close>

lemma Simplest_call:
  fixes a :: u32
  assumes "eval fuel (Simplest_program lf) arg ctx = Inr (a, ctx)"
    and "unat a < fuel"
    and "\<not> stopForReturn ctx"
  shows "if unat (stackTop ctx) + max 1 (unat a) \<le> STACK_SIZE
     then \<exists>c'. eval fuel (Simplest_program lf) (CallNode 0 arg) ctx = Inr (fib a, c') \<and>
            frames_kept ctx c' \<and> \<not> stopForReturn c'
     else eval fuel (Simplest_program lf) (CallNode 0 arg) ctx =
            Inl (UndefinedBehaviour StackWriteOutOfBounds)"
  using assms
proof (induction "unat a" arbitrary: a fuel ctx arg rule: less_induct)
  case less
  let ?P = "Simplest_program lf"
  let ?call = "\<lambda>d. CallNode 0 (SubNode ArgNode (ConstNode d))"
  let ?SW = "Inl (UndefinedBehaviour StackWriteOutOfBounds)"
  obtain k where fuel: "fuel = Suc k"
    using less.prems(2) by (cases fuel) auto
  show ?case
  proof (cases "unat (stackTop ctx) < STACK_SIZE")
    case False
    then have "push_arg a ctx = Inl (UndefinedBehaviour StackWriteOutOfBounds)"
      by (simp add: push_arg_def)
    with less.prems(1) False show ?thesis
      by (simp add: fuel)
  next
    case lt: True
    define c2 where "c2 = ctx\<lparr>stack := (stack ctx)(unat (stackTop ctx) := a), stackTop := stackTop ctx + 1\<rparr>"
    have push: "push_arg a ctx = Inr c2"
      using lt by (simp add: push_arg_ok c2_def)
    have top2: "unat (stackTop c2) = unat (stackTop ctx) + 1"
      using unat_top_succ[OF lt] by (simp add: c2_def)
    have ns2: "\<not> stopForReturn c2"
      using less.prems(3) by (simp add: c2_def)
    have fr2: "in_frame a c2"
      unfolding c2_def by (rule in_frame_push[OF lt])
    have arg_in: "read_arg c = Inr (a, c)" if "frames_kept c2 c" for c
      using in_frame_kept[OF fr2 that] by (rule read_arg_in_frame)
    have cond: "eval k ?P (LessNode ArgNode (ConstNode 2)) c2 = Inr (of_bool32 (a < 2), c2)"
      by (simp add: Simplest_program_simps arg_in frames_kept_refl)
    have s1: "eval k ?P (IfNode (LessNode ArgNode (ConstNode 2)) (ReturnNode ArgNode)) c2 =
        (if a < 2 then Inr (0, c2\<lparr>returnValue := a, stopForReturn := True\<rparr>) else Inr (0, c2))"
      using cond by (simp add: of_bool32_def arg_in frames_kept_refl del: eval.simps(5))
    have body: "if unat (stackTop ctx) + max 1 (unat a) \<le> STACK_SIZE
       then \<exists>c3. run_body k ?P (body (function_at ?P 0)) c2 = Inr c3 \<and> returnValue c3 = fib a \<and> frames_kept c2 c3
       else run_body k ?P (body (function_at ?P 0)) c2 = ?SW"
    proof (cases "a < 2")
      case True
      then have "unat a < 2"
        by (simp add: word_less_nat_alt)
      then have "unat (stackTop ctx) + max 1 (unat a) \<le> STACK_SIZE"
        using lt by (simp add: max_def)
      with True show ?thesis
        by (simp add: Simplest_program_simps(1) s1 fib_base frames_kept_return frames_kept_refl del: eval.simps)
    next
      case False
      note sub = unat_sub_le[OF False]
      have call: "if unat (stackTop c2) + max 1 (unat (a - d)) \<le> STACK_SIZE
           then \<exists>c'. eval k ?P (?call d) c = Inr (fib (a - d), c') \<and> frames_kept c2 c' \<and> \<not> stopForReturn c'
           else eval k ?P (?call d) c = ?SW"
        if kept: "frames_kept c2 c" and ns: "\<not> stopForReturn c" and d: "d = 1 \<or> d = 2" for c d
      proof -
        have ud: "unat (a - d) = unat a - unat d" "1 \<le> unat d" "unat d \<le> 2"
          using d sub by auto
        have 1: "eval k ?P (SubNode ArgNode (ConstNode d)) c = Inr (a - d, c)"
          by (simp add: Simplest_program_simps arg_in[OF kept])
        have 2: "unat (a - d) < unat a"
          using ud sub by linarith
        have 3: "unat (a - d) < k"
          using ud sub less.prems(2) fuel by linarith
        have top: "stackTop c = stackTop c2"
          using kept by (simp add: frames_kept_def)
        show ?thesis
          using less.hyps[OF 2 1 3 ns] kept frames_kept_trans unfolding top
          by (auto split: if_splits)
      qed
      let ?ok = "\<lambda>d. unat (stackTop c2) + max 1 (unat (a - d)) \<le> STACK_SIZE"
      have ok1: "?ok 1 \<longleftrightarrow> unat (stackTop ctx) + max 1 (unat a) \<le> STACK_SIZE"
        using sub top2 by (auto simp: max_def)
      have ok2: "?ok 1 \<Longrightarrow> ?ok 2"
        using sub top2 by (auto simp: max_def split: if_splits)
      have add: "if unat (stackTop ctx) + max 1 (unat a) \<le> STACK_SIZE
         then \<exists>c'. eval k ?P (AddNode (?call 1) (?call 2)) c2 = Inr (fib a, c') \<and> frames_kept c2 c'
         else eval k ?P (AddNode (?call 1) (?call 2)) c2 = ?SW"
      proof (cases "?ok 1")
        case ok: True
        show ?thesis
        proof (cases "lf InAddNode")
          case True
          obtain c3 where 1: "eval k ?P (?call 1) c2 = Inr (fib (a - 1), c3)"
            and k3: "frames_kept c2 c3" and n3: "\<not> stopForReturn c3"
            using call[OF frames_kept_refl ns2, of 1] ok by auto
          obtain c4 where 2: "eval k ?P (?call 2) c3 = Inr (fib (a - 2), c4)"
            and k4: "frames_kept c2 c4"
            using call[OF k3 n3, of 2] ok2[OF ok] by auto
          show ?thesis
            using True 1 2 k4 ok ok1 by (simp add: Simplest_program_simps fib_step[OF False])
        next
          case lf: False
          obtain c3 where 1: "eval k ?P (?call 2) c2 = Inr (fib (a - 2), c3)"
            and k3: "frames_kept c2 c3" and n3: "\<not> stopForReturn c3"
            using call[OF frames_kept_refl ns2, of 2] ok2[OF ok] by auto
          obtain c4 where 2: "eval k ?P (?call 1) c3 = Inr (fib (a - 1), c4)"
            and k4: "frames_kept c2 c4"
            using call[OF k3 n3, of 1] ok by auto
          show ?thesis
            using lf 1 2 k4 ok ok1 by (simp add: Simplest_program_simps fib_step[OF False])
        qed
      next
        case no: False
        have f1: "eval k ?P (?call 1) c = ?SW" if "frames_kept c2 c" "\<not> stopForReturn c" for c
          using call[OF that, of 1] no by simp
        show ?thesis
        proof (cases "lf InAddNode")
          case True
          show ?thesis
            using True f1[OF frames_kept_refl ns2] no ok1 by (simp add: Simplest_program_simps)
        next
          case lf: False
          show ?thesis
          proof (cases "?ok 2")
            case True
            obtain c3 where 1: "eval k ?P (?call 2) c2 = Inr (fib (a - 2), c3)"
              and k3: "frames_kept c2 c3" and n3: "\<not> stopForReturn c3"
              using call[OF frames_kept_refl ns2, of 2] True by auto
            show ?thesis
              using lf 1 f1[OF k3 n3] no ok1 by (simp add: Simplest_program_simps)
          next
            case False
            have "eval k ?P (?call 2) c2 = ?SW"
              using call[OF frames_kept_refl ns2, of 2] False by simp
            then show ?thesis
              using lf no ok1 by (simp add: Simplest_program_simps)
          qed
        qed
      qed
      show ?thesis
      proof (cases "unat (stackTop ctx) + max 1 (unat a) \<le> STACK_SIZE")
        case True
        with add obtain c' where "eval k ?P (AddNode (?call 1) (?call 2)) c2 = Inr (fib a, c')"
          and kept: "frames_kept c2 c'" by auto
        then have s2: "eval k ?P (ReturnNode (AddNode (?call 1) (?call 2))) c2
             = Inr (0, c'\<lparr>returnValue := fib a, stopForReturn := True\<rparr>)"
          by (simp del: eval.simps(3))
        show ?thesis
          using True False ns2 kept
          by (simp add: Simplest_program_simps(1) s1 s2 frames_kept_return del: eval.simps)
      next
        case no: False
        with add have "eval k ?P (AddNode (?call 1) (?call 2)) c2 = ?SW"
          by simp
        then have s2: "eval k ?P (ReturnNode (AddNode (?call 1) (?call 2))) c2 = ?SW"
          by (simp del: eval.simps(3))
        show ?thesis
          using no False ns2
          by (simp add: Simplest_program_simps(1) s1 s2 del: eval.simps)
      qed
    qed
    show ?thesis
    proof (cases "unat (stackTop ctx) + max 1 (unat a) \<le> STACK_SIZE")
      case True
      with body obtain c3 where "run_body k ?P (body (function_at ?P 0)) c2 = Inr c3"
        "returnValue c3 = fib a" "frames_kept c2 c3"
        by auto
      then show ?thesis
        using True less.prems(1) push fuel frames_kept_call[OF push]
        by (simp add: pop_frame_def)
    next
      case False
      with body have "run_body k ?P (body (function_at ?P 0)) c2 = ?SW"
        by simp
      then show ?thesis
        using False less.prems(1) push fuel
        by simp
    qed
  qed
qed

text \<open>
  Stages 2 and 3 run the body of stage 1 with fused nodes in place of their
  compositions: the statement loops have the same outcome in every context.
\<close>

lemma leaf_evals:
  "eval k (SimpleFusion_program lf) (LessConstNode ArgNode 2) c = eval k (Simplest_program lf) (LessNode ArgNode (ConstNode 2)) c"
  "eval k (SimpleFusion_program lf) (SubConstNode ArgNode d) c = eval k (Simplest_program lf) (SubNode ArgNode (ConstNode d)) c"
  "eval k (BetterFusion_program lf) (LessArgConstNode BetterFusion_ArgNode (BetterFusion_ConstNode 2)) c = eval k (Simplest_program lf) (LessNode ArgNode (ConstNode 2)) c"
  "eval k (BetterFusion_program lf) (SubArgConstNode BetterFusion_ArgNode (BetterFusion_ConstNode d)) c = eval k (Simplest_program lf) (SubNode ArgNode (ConstNode d)) c"
  by (simp_all add: Simplest_program_simps SimpleFusion_program_simps BetterFusion_program_simps
      LessArgConstNode_compute_def SubArgConstNode_compute_def operands_def read_arg_def)

lemma SimpleFusion_body_eq:
  "run_body k (SimpleFusion_program lf) (body (function_at (SimpleFusion_program lf) 0)) ctx =
   run_body k (Simplest_program lf) (body (function_at (Simplest_program lf) 0)) ctx"
proof (induction k arbitrary: ctx)
  case 0
  show ?case
    by (cases "lf InAddNode")
      (simp_all add: Simplest_program_simps SimpleFusion_program_simps read_arg_def)
next
  case (Suc k)
  let ?P1 = "Simplest_program lf" and ?P2 = "SimpleFusion_program lf"
  have call: "eval (Suc k) ?P2 (CallNode 0 (SubConstNode ArgNode d)) c =
      eval (Suc k) ?P1 (CallNode 0 (SubNode ArgNode (ConstNode d))) c" for d c
    unfolding eval.simps(8) leaf_evals Suc ..
  have add: "eval (Suc k) ?P2 (AddNode (CallNode 0 (SubConstNode ArgNode 1)) (CallNode 0 (SubConstNode ArgNode 2))) c =
      eval (Suc k) ?P1 (AddNode (CallNode 0 (SubNode ArgNode (ConstNode 1))) (CallNode 0 (SubNode ArgNode (ConstNode 2)))) c" for c
    unfolding eval.simps(3) call Simplest_program_simps SimpleFusion_program_simps ..
  have ret: "eval (Suc k) ?P2 (ReturnNode (AddNode (CallNode 0 (SubConstNode ArgNode 1)) (CallNode 0 (SubConstNode ArgNode 2)))) c =
      eval (Suc k) ?P1 (ReturnNode (AddNode (CallNode 0 (SubNode ArgNode (ConstNode 1))) (CallNode 0 (SubNode ArgNode (ConstNode 2))))) c" for c
    unfolding eval.simps(9) add ..
  have s1: "eval (Suc k) ?P2 (IfNode (LessConstNode ArgNode 2) (ReturnNode ArgNode)) c =
      eval (Suc k) ?P1 (IfNode (LessNode ArgNode (ConstNode 2)) (ReturnNode ArgNode)) c" for c
    unfolding eval.simps(6) leaf_evals eval.simps(9,10) ..
  show ?case
    unfolding Simplest_program_simps SimpleFusion_program_simps run_body.simps s1 ret ..
qed

lemma BetterFusion_body_eq:
  "run_body k (BetterFusion_program lf) (body (function_at (BetterFusion_program lf) 0)) ctx =
   run_body k (Simplest_program lf) (body (function_at (Simplest_program lf) 0)) ctx"
proof (induction k arbitrary: ctx)
  case 0
  show ?case
    by (cases "lf InAddNode") (simp_all add: Simplest_program_simps BetterFusion_program_simps read_arg_def
        LessArgConstNode_compute_def operands_def)
next
  case (Suc k)
  let ?P1 = "Simplest_program lf" and ?P3 = "BetterFusion_program lf"
  let ?sub = "\<lambda>d. SubArgConstNode BetterFusion_ArgNode (BetterFusion_ConstNode d)"
  have call: "eval (Suc k) ?P3 (BetterFusion_CallNode 0 (?sub d)) c =
      eval (Suc k) ?P1 (CallNode 0 (SubNode ArgNode (ConstNode d))) c" for d c
    unfolding eval.simps(8,18) leaf_evals Suc ..
  have add: "eval (Suc k) ?P3 (AddNode (BetterFusion_CallNode 0 (?sub 1)) (BetterFusion_CallNode 0 (?sub 2))) c =
      eval (Suc k) ?P1 (AddNode (CallNode 0 (SubNode ArgNode (ConstNode 1))) (CallNode 0 (SubNode ArgNode (ConstNode 2)))) c" for c
    unfolding eval.simps(3) call Simplest_program_simps BetterFusion_program_simps ..
  have ret: "eval (Suc k) ?P3 (ReturnNode (AddNode (BetterFusion_CallNode 0 (?sub 1)) (BetterFusion_CallNode 0 (?sub 2)))) c =
      eval (Suc k) ?P1 (ReturnNode (AddNode (CallNode 0 (SubNode ArgNode (ConstNode 1))) (CallNode 0 (SubNode ArgNode (ConstNode 2))))) c" for c
    unfolding eval.simps(9) add ..
  have s1: "eval (Suc k) ?P3 (IfNode (LessArgConstNode BetterFusion_ArgNode (BetterFusion_ConstNode 2)) (ReturnNode (BArgNode BetterFusion_ArgNode))) c =
      eval (Suc k) ?P1 (IfNode (LessNode ArgNode (ConstNode 2)) (ReturnNode ArgNode)) c" for c
    unfolding eval.simps(6) leaf_evals eval.simps(9,10,14) ArgNode_compute.simps ..
  show ?case
    unfolding Simplest_program_simps BetterFusion_program_simps run_body.simps s1 ret ..
qed

lemma SimpleFusion_fib_eq: "SimpleFusion_fib fuel lf mem n = Simplest_fib fuel lf mem n"
proof (cases fuel)
  case 0
  then show ?thesis
    by (simp add: SimpleFusion_fib_def Simplest_fib_def run_fresh_def)
next
  case (Suc k)
  show ?thesis
    unfolding SimpleFusion_fib_def Simplest_fib_def run_fresh_def Suc eval.simps(2,8) SimpleFusion_body_eq ..
qed

lemma BetterFusion_fib_eq: "BetterFusion_fib fuel lf mem n = Simplest_fib fuel lf mem n"
proof (cases fuel)
  case 0
  then show ?thesis
    by (simp add: BetterFusion_fib_def Simplest_fib_def run_fresh_def)
next
  case (Suc k)
  show ?thesis
    unfolding BetterFusion_fib_def Simplest_fib_def run_fresh_def Suc eval.simps(2,8,13,18)
      ConstNode_compute.simps BetterFusion_body_eq ..
qed

text \<open>Stage 4 has no statement loop and no Return; its call is treated like that of stage 1.\<close>

lemma SimplifyCalls_call:
  fixes a :: u32
  assumes "eval fuel (SimplifyCalls_program lf) arg ctx = Inr (a, ctx)"
    and "unat a < fuel"
  shows "if unat (stackTop ctx) + max 1 (unat a) \<le> STACK_SIZE
     then \<exists>c'. eval fuel (SimplifyCalls_program lf) (CallAnyNode 0 arg) ctx = Inr (fib a, c') \<and>
            frames_kept ctx c'
     else eval fuel (SimplifyCalls_program lf) (CallAnyNode 0 arg) ctx =
            Inl (UndefinedBehaviour StackWriteOutOfBounds)"
  using assms
proof (induction "unat a" arbitrary: a fuel ctx arg rule: less_induct)
  case less
  let ?P = "SimplifyCalls_program lf"
  let ?call = "\<lambda>d. CallAnyNode 0 (SubArgConstNode BetterFusion_ArgNode (BetterFusion_ConstNode d))"
  let ?SW = "Inl (UndefinedBehaviour StackWriteOutOfBounds)"
  let ?cond = "LessArgConstNode BetterFusion_ArgNode (BetterFusion_ConstNode 2)"
  obtain k where fuel: "fuel = Suc k"
    using less.prems(2) by (cases fuel) auto
  show ?case
  proof (cases "unat (stackTop ctx) < STACK_SIZE")
    case False
    then have "push_arg a ctx = Inl (UndefinedBehaviour StackWriteOutOfBounds)"
      by (simp add: push_arg_def)
    with less.prems(1) False show ?thesis
      by (simp add: fuel)
  next
    case lt: True
    define c2 where "c2 = ctx\<lparr>stack := (stack ctx)(unat (stackTop ctx) := a), stackTop := stackTop ctx + 1\<rparr>"
    have push: "push_arg a ctx = Inr c2"
      using lt by (simp add: push_arg_ok c2_def)
    have top2: "unat (stackTop c2) = unat (stackTop ctx) + 1"
      using unat_top_succ[OF lt] by (simp add: c2_def)
    have fr2: "in_frame a c2"
      unfolding c2_def by (rule in_frame_push[OF lt])
    have arg_in: "read_arg c = Inr (a, c)" if "frames_kept c2 c" for c
      using in_frame_kept[OF fr2 that] by (rule read_arg_in_frame)
    have cond: "eval k ?P ?cond c2 = Inr (of_bool32 (a < 2), c2)"
      by (simp add: LessArgConstNode_compute_eq arg_in frames_kept_refl)
    have body: "if unat (stackTop ctx) + max 1 (unat a) \<le> STACK_SIZE
       then \<exists>c3. eval k ?P (node_at ?P 0) c2 = Inr (fib a, c3) \<and> frames_kept c2 c3
       else eval k ?P (node_at ?P 0) c2 = ?SW"
    proof (cases "a < 2")
      case True
      then have "unat a < 2"
        by (simp add: word_less_nat_alt)
      then have "unat (stackTop ctx) + max 1 (unat a) \<le> STACK_SIZE"
        using lt by (simp add: max_def)
      with True cond show ?thesis
        by (simp add: SimplifyCalls_program_simps(1) of_bool32_def arg_in fib_base frames_kept_refl
            del: eval.simps(15))
    next
      case False
      note sub = unat_sub_le[OF False]
      have call: "if unat (stackTop c2) + max 1 (unat (a - d)) \<le> STACK_SIZE
           then \<exists>c'. eval k ?P (?call d) c = Inr (fib (a - d), c') \<and> frames_kept c2 c'
           else eval k ?P (?call d) c = ?SW"
        if kept: "frames_kept c2 c" and d: "d = 1 \<or> d = 2" for c d
      proof -
        have ud: "unat (a - d) = unat a - unat d" "1 \<le> unat d" "unat d \<le> 2"
          using d sub by auto
        have 1: "eval k ?P (SubArgConstNode BetterFusion_ArgNode (BetterFusion_ConstNode d)) c = Inr (a - d, c)"
          by (simp add: SubArgConstNode_compute_eq arg_in[OF kept])
        have 2: "unat (a - d) < unat a"
          using ud sub by linarith
        have 3: "unat (a - d) < k"
          using ud sub less.prems(2) fuel by linarith
        have top: "stackTop c = stackTop c2"
          using kept by (simp add: frames_kept_def)
        show ?thesis
          using less.hyps[OF 2 1 3] kept frames_kept_trans unfolding top
          by (auto split: if_splits)
      qed
      let ?ok = "\<lambda>d. unat (stackTop c2) + max 1 (unat (a - d)) \<le> STACK_SIZE"
      have ok1: "?ok 1 \<longleftrightarrow> unat (stackTop ctx) + max 1 (unat a) \<le> STACK_SIZE"
        using sub top2 by (auto simp: max_def)
      have ok2: "?ok 1 \<Longrightarrow> ?ok 2"
        using sub top2 by (auto simp: max_def split: if_splits)
      have add: "if unat (stackTop ctx) + max 1 (unat a) \<le> STACK_SIZE
         then \<exists>c'. eval k ?P (AddNode (?call 1) (?call 2)) c2 = Inr (fib a, c') \<and> frames_kept c2 c'
         else eval k ?P (AddNode (?call 1) (?call 2)) c2 = ?SW"
      proof (cases "?ok 1")
        case ok: True
        show ?thesis
        proof (cases "lf InAddNode")
          case True
          obtain c3 where 1: "eval k ?P (?call 1) c2 = Inr (fib (a - 1), c3)"
            and k3: "frames_kept c2 c3"
            using call[OF frames_kept_refl, of 1] ok by auto
          obtain c4 where 2: "eval k ?P (?call 2) c3 = Inr (fib (a - 2), c4)"
            and k4: "frames_kept c2 c4"
            using call[OF k3, of 2] ok2[OF ok] by auto
          show ?thesis
            using True 1 2 k4 ok ok1 by (simp add: SimplifyCalls_program_simps fib_step[OF False])
        next
          case lf: False
          obtain c3 where 1: "eval k ?P (?call 2) c2 = Inr (fib (a - 2), c3)"
            and k3: "frames_kept c2 c3"
            using call[OF frames_kept_refl, of 2] ok2[OF ok] by auto
          obtain c4 where 2: "eval k ?P (?call 1) c3 = Inr (fib (a - 1), c4)"
            and k4: "frames_kept c2 c4"
            using call[OF k3, of 1] ok by auto
          show ?thesis
            using lf 1 2 k4 ok ok1 by (simp add: SimplifyCalls_program_simps fib_step[OF False])
        qed
      next
        case no: False
        have f1: "eval k ?P (?call 1) c = ?SW" if "frames_kept c2 c" for c
          using call[OF that, of 1] no by simp
        show ?thesis
        proof (cases "lf InAddNode")
          case True
          show ?thesis
            using True f1[OF frames_kept_refl] no ok1 by (simp add: SimplifyCalls_program_simps)
        next
          case lf: False
          show ?thesis
          proof (cases "?ok 2")
            case True
            obtain c3 where 1: "eval k ?P (?call 2) c2 = Inr (fib (a - 2), c3)"
              and k3: "frames_kept c2 c3"
              using call[OF frames_kept_refl, of 2] True by auto
            show ?thesis
              using lf 1 f1[OF k3] no ok1 by (simp add: SimplifyCalls_program_simps)
          next
            case False
            have "eval k ?P (?call 2) c2 = ?SW"
              using call[OF frames_kept_refl, of 2] False by simp
            then show ?thesis
              using lf no ok1 by (simp add: SimplifyCalls_program_simps)
          qed
        qed
      qed
      show ?thesis
        using add cond False
        by (simp add: SimplifyCalls_program_simps(1) of_bool32_def del: eval.simps(3,15))
    qed
    show ?thesis
    proof (cases "unat (stackTop ctx) + max 1 (unat a) \<le> STACK_SIZE")
      case True
      with body obtain c3 where "eval k ?P (node_at ?P 0) c2 = Inr (fib a, c3)" "frames_kept c2 c3"
        by auto
      then show ?thesis
        using True less.prems(1) push fuel frames_kept_call[OF push]
        by simp
    next
      case False
      with body have "eval k ?P (node_at ?P 0) c2 = ?SW"
        by simp
      then show ?thesis
        using False less.prems(1) push fuel
        by simp
    qed
  qed
qed

lemma Context_init_simps:
  "stackTop (Context_init mem) = 0" "\<not> stopForReturn (Context_init mem)"
  "returnValue (Context_init mem) = 0" "stack (Context_init mem) = mem"
  by (simp_all add: Context_init_def)

lemma fits_top: "0 + max 1 (unat (n::u32)) \<le> STACK_SIZE \<longleftrightarrow> unat n \<le> STACK_SIZE"
  by (auto simp: STACK_SIZE_def max_def)

text \<open>
  The drivers: with fuel for the depth of the recursion, an argument of at most 4096
  gives \<open>fib n\<close>, a larger one runs into the store past the end of the array.
\<close>

lemma Simplest_fib_outcome:
  assumes "unat n < fuel"
  shows "Simplest_fib fuel lf mem n =
     (if unat n \<le> STACK_SIZE then Inr (fib n) else Inl (UndefinedBehaviour StackWriteOutOfBounds))"
proof -
  have "eval fuel (Simplest_program lf) (ConstNode n) (Context_init mem) = Inr (n, Context_init mem)"
    by simp
  from Simplest_call[OF this assms Context_init_simps(2)] show ?thesis
    unfolding Simplest_fib_def run_fresh_def Context_init_simps(1) unat_0 fits_top
    by (auto split: if_splits)
qed

lemma SimplifyCalls_fib_outcome:
  assumes "unat n < fuel"
  shows "SimplifyCalls_fib fuel lf mem n =
     (if unat n \<le> STACK_SIZE then Inr (fib n) else Inl (UndefinedBehaviour StackWriteOutOfBounds))"
proof -
  have "eval fuel (SimplifyCalls_program lf) (BConstNode (BetterFusion_ConstNode n)) (Context_init mem)
      = Inr (n, Context_init mem)"
    by simp
  from SimplifyCalls_call[OF this assms] show ?thesis
    unfolding SimplifyCalls_fib_def run_fresh_def Context_init_simps(1) unat_0 fits_top
    by (auto split: if_splits)
qed

text \<open>The reference on the first arguments, each value from the two before it.\<close>

lemma fib_upto_20:
  "fib 0 = 0" "fib 1 = 1" "fib 2 = 1" "fib 3 = 2" "fib 4 = 3" "fib 5 = 5" "fib 6 = 8"
  "fib 7 = 13" "fib 8 = 21" "fib 9 = 34" "fib 10 = 55" "fib 11 = 89" "fib 12 = 144" "fib 13 = 233"
  "fib 14 = 377" "fib 15 = 610" "fib 16 = 987" "fib 17 = 1597" "fib 18 = 2584" "fib 19 = 4181" "fib 20 = 6765"
proof -
  show f0: "fib 0 = 0" and f1: "fib 1 = 1"
    by (simp_all add: fib_base)
  show f2: "fib 2 = 1"
    using fib_step[of 2] f1 f0 by simp
  show f3: "fib 3 = 2"
    using fib_step[of 3] f2 f1 by simp
  show f4: "fib 4 = 3"
    using fib_step[of 4] f3 f2 by simp
  show f5: "fib 5 = 5"
    using fib_step[of 5] f4 f3 by simp
  show f6: "fib 6 = 8"
    using fib_step[of 6] f5 f4 by simp
  show f7: "fib 7 = 13"
    using fib_step[of 7] f6 f5 by simp
  show f8: "fib 8 = 21"
    using fib_step[of 8] f7 f6 by simp
  show f9: "fib 9 = 34"
    using fib_step[of 9] f8 f7 by simp
  show f10: "fib 10 = 55"
    using fib_step[of 10] f9 f8 by simp
  show f11: "fib 11 = 89"
    using fib_step[of 11] f10 f9 by simp
  show f12: "fib 12 = 144"
    using fib_step[of 12] f11 f10 by simp
  show f13: "fib 13 = 233"
    using fib_step[of 13] f12 f11 by simp
  show f14: "fib 14 = 377"
    using fib_step[of 14] f13 f12 by simp
  show f15: "fib 15 = 610"
    using fib_step[of 15] f14 f13 by simp
  show f16: "fib 16 = 987"
    using fib_step[of 16] f15 f14 by simp
  show f17: "fib 17 = 1597"
    using fib_step[of 17] f16 f15 by simp
  show f18: "fib 18 = 2584"
    using fib_step[of 18] f17 f16 by simp
  show f19: "fib 19 = 4181"
    using fib_step[of 19] f18 f17 by simp
  show f20: "fib 20 = 6765"
    using fib_step[of 20] f19 f18 by simp
qed

lemma SimpleFusion_fib_outcome:
  "unat n < fuel \<Longrightarrow> SimpleFusion_fib fuel lf mem n =
     (if unat n \<le> STACK_SIZE then Inr (fib n) else Inl (UndefinedBehaviour StackWriteOutOfBounds))"
  by (simp only: SimpleFusion_fib_eq Simplest_fib_outcome)

lemma BetterFusion_fib_outcome:
  "unat n < fuel \<Longrightarrow> BetterFusion_fib fuel lf mem n =
     (if unat n \<le> STACK_SIZE then Inr (fib n) else Inl (UndefinedBehaviour StackWriteOutOfBounds))"
  by (simp only: BetterFusion_fib_eq Simplest_fib_outcome)

section \<open>The claims about the drivers\<close>

text \<open>
  C1. For every argument \<open>n\<close> within the limits, the four stage evaluators
  \<^verbatim>\<open>Simplest::fib\<close>, \<^verbatim>\<open>SimpleFusion::fib\<close>, \<^verbatim>\<open>BetterFusion::fib\<close> and
  \<^verbatim>\<open>SimplifyCalls::fib\<close> and the plain recursive \<^verbatim>\<open>fib\<close> produce the same
  \<^verbatim>\<open>uint32_t\<close>. The limits are exact: the argument stack has room for the recursion
  on \<open>n\<close> when \<open>n\<close> is at most 4096 (the range 0..30 of the specification lies well
  inside), and the run needs fuel for \<open>n\<close> nested calls. Each stage returns, whatever
  the operand order of the compiler and whatever the uninitialised stack held.
\<close>

theorem stages_agree_with_fib:
  assumes "unat n \<le> STACK_SIZE" and "unat n < fuel"
  shows "Simplest_fib fuel lf1 mem1 n = Inr (fib n) \<and>
         SimpleFusion_fib fuel lf2 mem2 n = Inr (fib n) \<and>
         BetterFusion_fib fuel lf3 mem3 n = Inr (fib n) \<and>
         SimplifyCalls_fib fuel lf4 mem4 n = Inr (fib n)"
  using assms
  by (simp add: Simplest_fib_outcome SimpleFusion_fib_outcome BetterFusion_fib_outcome
      SimplifyCalls_fib_outcome)

theorem stages_agree_with_fib_witness:
  "Simplest_fib 31 left_to_right zeroed 30 = Inr (fib 30) \<and>
   SimpleFusion_fib 31 right_to_left zeroed 30 = Inr (fib 30) \<and>
   BetterFusion_fib 31 left_to_right zeroed 30 = Inr (fib 30) \<and>
   SimplifyCalls_fib 31 right_to_left zeroed 30 = Inr (fib 30)"
  using stages_agree_with_fib[of 30 31 left_to_right zeroed right_to_left zeroed left_to_right zeroed right_to_left zeroed]
  by (simp add: STACK_SIZE_def)

text \<open>
  C8. Each stage's \<open>fib\<close> returns 0 for the argument 0, 1 for 1, 55 for 10 and 6765 for
  20, and so does the plain recursive \<open>fib\<close>; a run needs fuel for more than 20 nested
  calls to reach all four.
\<close>

theorem fib_known_values:
  assumes "20 < fuel"
  shows "Simplest_fib fuel lf mem 0 = Inr 0 \<and> Simplest_fib fuel lf mem 1 = Inr 1 \<and>
         Simplest_fib fuel lf mem 10 = Inr 55 \<and> Simplest_fib fuel lf mem 20 = Inr 6765 \<and>
         SimpleFusion_fib fuel lf mem 0 = Inr 0 \<and> SimpleFusion_fib fuel lf mem 1 = Inr 1 \<and>
         SimpleFusion_fib fuel lf mem 10 = Inr 55 \<and> SimpleFusion_fib fuel lf mem 20 = Inr 6765 \<and>
         BetterFusion_fib fuel lf mem 0 = Inr 0 \<and> BetterFusion_fib fuel lf mem 1 = Inr 1 \<and>
         BetterFusion_fib fuel lf mem 10 = Inr 55 \<and> BetterFusion_fib fuel lf mem 20 = Inr 6765 \<and>
         SimplifyCalls_fib fuel lf mem 0 = Inr 0 \<and> SimplifyCalls_fib fuel lf mem 1 = Inr 1 \<and>
         SimplifyCalls_fib fuel lf mem 10 = Inr 55 \<and> SimplifyCalls_fib fuel lf mem 20 = Inr 6765 \<and>
         fib 0 = 0 \<and> fib 1 = 1 \<and> fib 10 = 55 \<and> fib 20 = 6765"
  using assms
  by (simp add: Simplest_fib_outcome SimpleFusion_fib_outcome BetterFusion_fib_outcome
      SimplifyCalls_fib_outcome STACK_SIZE_def fib_upto_20)

theorem fib_known_values_witness:
  "Simplest_fib 21 left_to_right zeroed 0 = Inr 0 \<and> Simplest_fib 21 left_to_right zeroed 1 = Inr 1 \<and>
   Simplest_fib 21 left_to_right zeroed 10 = Inr 55 \<and> Simplest_fib 21 left_to_right zeroed 20 = Inr 6765 \<and>
   SimplifyCalls_fib 21 left_to_right zeroed 20 = Inr 6765"
  using fib_known_values[of 21 left_to_right zeroed] by simp

text \<open>
  C5 claims that a push beyond the capacity of the argument stack fails with a distinct,
  reportable stack-overflow error. The code has no such check and no such error:
  \<^verbatim>\<open>ctx->stack[ctx->stackTop] = arg->eval(ctx)\<close> stores whatever \<open>stackTop\<close> is.
  \<^verbatim>\<open>Simplest::fib(4097)\<close> with the left operand evaluated first reaches a push with
  \<open>stackTop = 4096\<close> and executes the store one word past the end of the array, which
  C++ leaves undefined.
\<close>

theorem fib_4097_unchecked_store:
  "Simplest_fib 4098 left_to_right zeroed 4097 = Inl (UndefinedBehaviour StackWriteOutOfBounds)"
  using Simplest_fib_outcome[of 4097 4098 left_to_right zeroed] by (simp add: STACK_SIZE_def)

text \<open>
  C5, amended. A push with \<open>stackTop\<close> below 4096 stores the argument in slot
  \<open>stackTop\<close> and increments \<open>stackTop\<close>, and nothing else. A push with \<open>stackTop\<close> at
  4096 or more is not checked: it is a store outside the array, undefined behaviour,
  and no error is reported; every call node whose argument has been evaluated with the
  stack full ends there. For the four drivers, run with fuel for \<open>n\<close> nested calls, an
  argument of at most 4096 never reaches such a store and gives \<open>fib n\<close>, and every
  larger argument reaches it, in either operand order.
\<close>

theorem push_is_unchecked:
  "push_arg v ctx =
     (if unat (stackTop ctx) < STACK_SIZE
      then Inr (ctx\<lparr>stack := (stack ctx)(unat (stackTop ctx) := v), stackTop := stackTop ctx + 1\<rparr>)
      else Inl (UndefinedBehaviour StackWriteOutOfBounds)) \<and>
   (eval (Suc k) P arg ctx = Inr (a, c1) \<and> STACK_SIZE \<le> unat (stackTop c1) \<longrightarrow>
      eval (Suc k) P (CallNode f arg) ctx = Inl (UndefinedBehaviour StackWriteOutOfBounds) \<and>
      eval (Suc k) P (BetterFusion_CallNode f arg) ctx = Inl (UndefinedBehaviour StackWriteOutOfBounds) \<and>
      eval (Suc k) P (CallAnyNode f arg) ctx = Inl (UndefinedBehaviour StackWriteOutOfBounds)) \<and>
   (unat n < fuel \<longrightarrow>
      Simplest_fib fuel lf mem n =
        (if unat n \<le> STACK_SIZE then Inr (fib n) else Inl (UndefinedBehaviour StackWriteOutOfBounds)) \<and>
      SimpleFusion_fib fuel lf mem n =
        (if unat n \<le> STACK_SIZE then Inr (fib n) else Inl (UndefinedBehaviour StackWriteOutOfBounds)) \<and>
      BetterFusion_fib fuel lf mem n =
        (if unat n \<le> STACK_SIZE then Inr (fib n) else Inl (UndefinedBehaviour StackWriteOutOfBounds)) \<and>
      SimplifyCalls_fib fuel lf mem n =
        (if unat n \<le> STACK_SIZE then Inr (fib n) else Inl (UndefinedBehaviour StackWriteOutOfBounds)))"
  by (simp add: push_arg_def Simplest_fib_outcome SimpleFusion_fib_outcome BetterFusion_fib_outcome
      SimplifyCalls_fib_outcome)

theorem push_is_unchecked_witness:
  "Simplest_fib 5001 right_to_left zeroed 5000 = Inl (UndefinedBehaviour StackWriteOutOfBounds) \<and>
   SimplifyCalls_fib 5001 right_to_left zeroed 5000 = Inl (UndefinedBehaviour StackWriteOutOfBounds) \<and>
   Simplest_fib 5001 right_to_left zeroed 4096 = Inr (fib 4096) \<and>
   eval 1 stale_program (CallNode 0 (ConstNode 0)) (Context_init zeroed\<lparr>stackTop := 4096\<rparr>) =
     Inl (UndefinedBehaviour StackWriteOutOfBounds)"
  using push_is_unchecked[where n = 5000 and fuel = 5001 and lf = right_to_left and mem = zeroed]
    push_is_unchecked[where n = 4096 and fuel = 5001 and lf = right_to_left and mem = zeroed]
    push_is_unchecked[where k = 0 and P = stale_program and arg = "ConstNode 0" and a = 0 and f = 0
      and ctx = "Context_init zeroed\<lparr>stackTop := 4096\<rparr>" and ?c1.0 = "Context_init zeroed\<lparr>stackTop := 4096\<rparr>"]
  by (simp add: STACK_SIZE_def del: eval.simps(8,18,20))

section \<open>The claims about single nodes\<close>

text \<open>
  C9. \<open>AddNode\<close> and \<open>SubNode\<close> evaluate both children, in the order of the compiler,
  and combine the two values with \<open>+\<close> and \<open>-\<close> on \<^verbatim>\<open>uint32_t\<close>; the fused
  \<open>SubConstNode\<close> and \<open>SubArgConstNode\<close> subtract their constant in the same way. The
  combination itself never fails: a fault can only come from a child (or from the
  argument read). The arithmetic is modulo \<open>2 ^ 32\<close> for all operand values; in
  particular \<open>0 - 1\<close> is \<open>2 ^ 32 - 1\<close> and \<open>(2 ^ 32 - 1) + 1\<close> is 0.
\<close>

theorem add_sub_wrap_never_fail:
  "eval fuel P (AddNode lhs rhs) ctx =
     (case operands (lhs_first P InAddNode) (eval fuel P lhs) (eval fuel P rhs) ctx of
        Inl e \<Rightarrow> Inl e | Inr ((a, b), c) \<Rightarrow> Inr (a + b, c)) \<and>
   eval fuel P (SubNode lhs rhs) ctx =
     (case operands (lhs_first P InSubNode) (eval fuel P lhs) (eval fuel P rhs) ctx of
        Inl e \<Rightarrow> Inl e | Inr ((a, b), c) \<Rightarrow> Inr (a - b, c)) \<and>
   eval fuel P (SubConstNode lhs k) ctx =
     (case eval fuel P lhs ctx of Inl e \<Rightarrow> Inl e | Inr (a, c) \<Rightarrow> Inr (a - k, c)) \<and>
   eval fuel P (SubArgConstNode t (BetterFusion_ConstNode k)) ctx =
     (case read_arg ctx of Inl e \<Rightarrow> Inl e | Inr (a, c) \<Rightarrow> Inr (a - k, c)) \<and>
   eval fuel P (AddNode (ConstNode x) (ConstNode y)) ctx = Inr (x + y, ctx) \<and>
   eval fuel P (SubNode (ConstNode x) (ConstNode y)) ctx = Inr (x - y, ctx) \<and>
   eval fuel P (SubConstNode (ConstNode x) y) ctx = Inr (x - y, ctx) \<and>
   unat (x + y) = (unat x + unat y) mod 2 ^ 32 \<and>
   unat (x - y) = (unat x + 2 ^ 32 - unat y) mod 2 ^ 32 \<and>
   eval fuel P (SubNode (ConstNode 0) (ConstNode 1)) ctx = Inr (4294967295, ctx) \<and>
   eval fuel P (AddNode (ConstNode 4294967295) (ConstNode 1)) ctx = Inr (0, ctx)"
proof -
  have add: "eval fuel P (AddNode lhs rhs) ctx =
     (case operands (lhs_first P InAddNode) (eval fuel P lhs) (eval fuel P rhs) ctx of
        Inl e \<Rightarrow> Inl e | Inr ((a, b), c) \<Rightarrow> Inr (a + b, c))" for lhs rhs
    by (cases "lhs_first P InAddNode") (simp_all add: operands_def split: sum.splits prod.splits)
  have sub: "eval fuel P (SubNode lhs rhs) ctx =
     (case operands (lhs_first P InSubNode) (eval fuel P lhs) (eval fuel P rhs) ctx of
        Inl e \<Rightarrow> Inl e | Inr ((a, b), c) \<Rightarrow> Inr (a - b, c))" for lhs rhs
    by (cases "lhs_first P InSubNode") (simp_all add: operands_def split: sum.splits prod.splits)
  have cst: "operands lf (eval fuel P (ConstNode x)) (eval fuel P (ConstNode y)) ctx = Inr ((x, y), ctx)"
    for lf x y
    by (simp add: operands_def)
  have uadd: "unat (x + y) = (unat x + unat y) mod 2 ^ 32"
    by (simp add: unat_word_ariths)
  have usub: "unat (x - y) = (unat x + 2 ^ 32 - unat y) mod 2 ^ 32"
  proof -
    have "unat x < 2 ^ 32" "unat y < 2 ^ 32"
      using unsigned_less[of x, where 'a = nat] unsigned_less[of y, where 'a = nat] by simp_all
    then show ?thesis
      by (simp add: unat_sub_if_size word_size mod_if)
  qed
  show ?thesis
    unfolding add sub cst
    using uadd usub by (simp add: SubArgConstNode_compute_eq)
qed

lemma eval_BetterFusion_CallNode:
  "eval fuel P (BetterFusion_CallNode f arg) ctx = eval fuel P (CallNode f arg) ctx"
  by (cases fuel) simp_all

text \<open>
  C4. For each of the four node kinds of \<^verbatim>\<open>BetterFusion\<close> with two entry points
  (\<^verbatim>\<open>ConstNode\<close>, \<^verbatim>\<open>ArgNode\<close>, \<^verbatim>\<open>LessArgConstNode\<close>, \<^verbatim>\<open>SubArgConstNode\<close>) and every
  context, the virtual \<^verbatim>\<open>eval\<close> has the outcome of \<^verbatim>\<open>compute\<close>: the same value and the
  same context, or the same fault. Stage 3 matches stages 1 and 2: each of its nodes
  has the outcome of its counterpart there, its call node that of \<open>CallNode\<close>, and
  \<^verbatim>\<open>BetterFusion::fib\<close> has the outcome of \<^verbatim>\<open>Simplest::fib\<close> and of
  \<^verbatim>\<open>SimpleFusion::fib\<close> on every argument, with any fuel.
\<close>

theorem eval_equals_compute:
  "eval fuel P (BConstNode c) ctx = ConstNode_compute c ctx \<and>
   eval fuel P (BArgNode t) ctx = ArgNode_compute t ctx \<and>
   eval fuel P (LessArgConstNode t c) ctx = LessArgConstNode_compute (lhs_first P InLessArgConstNode) t c ctx \<and>
   eval fuel P (SubArgConstNode t c) ctx = SubArgConstNode_compute (lhs_first P InSubArgConstNode) t c ctx \<and>
   eval fuel P (BConstNode (BetterFusion_ConstNode k)) ctx = eval fuel P (ConstNode k) ctx \<and>
   eval fuel P (BArgNode t) ctx = eval fuel P ArgNode ctx \<and>
   eval fuel P (LessArgConstNode t (BetterFusion_ConstNode k)) ctx =
     eval fuel P (LessNode ArgNode (ConstNode k)) ctx \<and>
   eval fuel P (LessArgConstNode t (BetterFusion_ConstNode k)) ctx =
     eval fuel P (LessConstNode ArgNode k) ctx \<and>
   eval fuel P (SubArgConstNode t (BetterFusion_ConstNode k)) ctx =
     eval fuel P (SubNode ArgNode (ConstNode k)) ctx \<and>
   eval fuel P (SubArgConstNode t (BetterFusion_ConstNode k)) ctx =
     eval fuel P (SubConstNode ArgNode k) ctx \<and>
   eval fuel P (BetterFusion_CallNode f arg) ctx = eval fuel P (CallNode f arg) ctx \<and>
   BetterFusion_fib fuel lf mem n = Simplest_fib fuel lf mem n \<and>
   BetterFusion_fib fuel lf mem n = SimpleFusion_fib fuel lf mem n"
proof -
  have f1: "eval fuel P (BConstNode c) ctx = ConstNode_compute c ctx"
    and f2: "eval fuel P (BArgNode t) ctx = ArgNode_compute t ctx"
    and f3: "eval fuel P (LessArgConstNode t c) ctx = LessArgConstNode_compute (lhs_first P InLessArgConstNode) t c ctx"
    and f4: "eval fuel P (SubArgConstNode t c) ctx = SubArgConstNode_compute (lhs_first P InSubArgConstNode) t c ctx"
    and f5: "eval fuel P (BConstNode (BetterFusion_ConstNode k)) ctx = eval fuel P (ConstNode k) ctx"
    by simp_all
  have f6: "eval fuel P (BArgNode t) ctx = eval fuel P ArgNode ctx"
    by (simp add: ArgNode_compute_eq)
  have f7: "eval fuel P (LessArgConstNode t (BetterFusion_ConstNode k)) ctx =
      eval fuel P (LessConstNode ArgNode k) ctx"
    by (simp only: eval_LessArgConstNode_unfused eval_LessConstNode_unfused)
  have f8: "eval fuel P (SubArgConstNode t (BetterFusion_ConstNode k)) ctx =
      eval fuel P (SubConstNode ArgNode k) ctx"
    by (simp only: eval_SubArgConstNode_unfused eval_SubConstNode_unfused)
  have f9: "BetterFusion_fib fuel lf mem n = SimpleFusion_fib fuel lf mem n"
    by (simp only: BetterFusion_fib_eq SimpleFusion_fib_eq)
  show ?thesis
    by (intro conjI)
      (rule f1 f2 f3 f4 f5 f6 f7 f8 f9 eval_LessArgConstNode_unfused eval_SubArgConstNode_unfused
        eval_BetterFusion_CallNode BetterFusion_fib_eq)+
qed

section \<open>The claims about the call protocol\<close>

lemma CallNode_stack_steps:
  assumes "eval fuel P (CallNode f arg) ctx = Inr (v, c')"
  shows "\<exists>k a c1 c2 c3. fuel = Suc k \<and> eval fuel P arg ctx = Inr (a, c1) \<and> stackTop c1 = stackTop ctx \<and>
     push_arg a c1 = Inr c2 \<and> unat (stackTop c2) = unat (stackTop ctx) + 1 \<and>
     run_body k P (body (function_at P f)) c2 = Inr c3 \<and> stackTop c3 = stackTop c2 \<and>
     c' = pop_frame c3 \<and> unat (stackTop c') = unat (stackTop c3) - 1 \<and> stackTop c' = stackTop ctx"
proof -
  from CallNode_Inr[OF assms] obtain k a c1 c2 c3 where fuel: "fuel = Suc k"
    and 1: "eval (Suc k) P arg ctx = Inr (a, c1)" and 2: "push_arg a c1 = Inr c2"
    and 3: "run_body k P (body (function_at P f)) c2 = Inr c3" and 4: "c' = pop_frame c3"
    by blast
  have t1: "stackTop c1 = stackTop ctx"
    using eval_frames_kept[OF 1] by (simp add: frames_kept_def)
  from 2 have lt: "unat (stackTop c1) < STACK_SIZE" and t2: "stackTop c2 = stackTop c1 + 1"
    by (auto simp: push_arg_def split: if_splits)
  have u2: "unat (stackTop c2) = unat (stackTop ctx) + 1"
    using unat_top_succ[OF lt] t1 t2 by simp
  have t3: "stackTop c3 = stackTop c2"
    using run_body_frames_kept[OF 3] by (simp add: frames_kept_def)
  have t4: "stackTop c' = stackTop ctx"
    using 4 t3 t2 t1 by (simp add: pop_frame_def)
  have "unat (stackTop c') = unat (stackTop c3) - 1"
    using t4 t3 u2 by simp
  with fuel 1 2 3 4 t1 u2 t3 t4 show ?thesis
    by blast
qed

lemma CallAnyNode_stack_steps:
  assumes "eval fuel P (CallAnyNode f arg) ctx = Inr (v, c')"
  shows "\<exists>k a c1 c2 c3. fuel = Suc k \<and> eval fuel P arg ctx = Inr (a, c1) \<and> stackTop c1 = stackTop ctx \<and>
     push_arg a c1 = Inr c2 \<and> unat (stackTop c2) = unat (stackTop ctx) + 1 \<and>
     eval k P (node_at P f) c2 = Inr (v, c3) \<and> stackTop c3 = stackTop c2 \<and>
     c' = pop_frame c3 \<and> unat (stackTop c') = unat (stackTop c3) - 1 \<and> stackTop c' = stackTop ctx"
proof -
  from CallAnyNode_Inr[OF assms] obtain k a c1 c2 c3 where fuel: "fuel = Suc k"
    and 1: "eval (Suc k) P arg ctx = Inr (a, c1)" and 2: "push_arg a c1 = Inr c2"
    and 3: "eval k P (node_at P f) c2 = Inr (v, c3)" and 4: "c' = pop_frame c3"
    by blast
  have t1: "stackTop c1 = stackTop ctx"
    using eval_frames_kept[OF 1] by (simp add: frames_kept_def)
  from 2 have lt: "unat (stackTop c1) < STACK_SIZE" and t2: "stackTop c2 = stackTop c1 + 1"
    by (auto simp: push_arg_def split: if_splits)
  have u2: "unat (stackTop c2) = unat (stackTop ctx) + 1"
    using unat_top_succ[OF lt] t1 t2 by simp
  have t3: "stackTop c3 = stackTop c2"
    using eval_frames_kept[OF 3] by (simp add: frames_kept_def)
  have t4: "stackTop c' = stackTop ctx"
    using 4 t3 t2 t1 by (simp add: pop_frame_def)
  have "unat (stackTop c') = unat (stackTop c3) - 1"
    using t4 t3 u2 by simp
  with fuel 1 2 3 4 t1 u2 t3 t4 show ?thesis
    by blast
qed

lemmas eval_simps_concrete =
  Function_init_def Context_init_def push_arg_def read_arg_def pop_frame_def
  STACK_SIZE_def of_bool32_def zeroed_def

lemma SimplifyCalls_eval_2:
  "\<exists>c'. eval 2 (SimplifyCalls_program left_to_right) (CallAnyNode 0 (BConstNode (BetterFusion_ConstNode 2)))
      (Context_init zeroed) = Inr (1, c')"
  by (simp add: numeral_2_eq_2 SimplifyCalls_program_simps eval_simps_concrete left_to_right_def
      LessArgConstNode_compute_eq SubArgConstNode_compute_eq)

lemma SimplifyCalls_eval_1:
  "\<exists>c'. eval 1 (SimplifyCalls_program left_to_right) (CallAnyNode 0 (BConstNode (BetterFusion_ConstNode 1)))
      (Context_init zeroed) = Inr (1, c')"
  by (simp add: SimplifyCalls_program_simps eval_simps_concrete left_to_right_def
      LessArgConstNode_compute_eq SubArgConstNode_compute_eq)

lemma Simplest_eval_2:
  "\<exists>c'. eval 2 (Simplest_program left_to_right) (CallNode 0 (ConstNode 2)) (Context_init zeroed) = Inr (1, c')"
  by (simp add: numeral_2_eq_2 Simplest_program_simps Context_init_def push_arg_def read_arg_def pop_frame_def
      STACK_SIZE_def of_bool32_def)

text \<open>
  C6. An evaluation that completes leaves \<open>stackTop\<close> at the value it had before; from
  a fresh context that value is 0. Each call (\<open>CallNode\<close>, and \<open>CallAnyNode\<close> of stage
  4) runs its callee with \<open>stackTop\<close> one higher than at entry, without wrap-around, the
  callee leaves it there, and the exit takes it down by one: no frame is leaked.
\<close>

theorem stackTop_restored:
  "(eval fuel P n ctx = Inr (v, c') \<longrightarrow> stackTop c' = stackTop ctx) \<and>
   (eval fuel P n (Context_init mem) = Inr (v, c') \<longrightarrow> stackTop c' = 0) \<and>
   (eval fuel P (CallNode f arg) ctx = Inr (v, c') \<longrightarrow>
      (\<exists>k a c1 c2 c3. fuel = Suc k \<and> eval fuel P arg ctx = Inr (a, c1) \<and> stackTop c1 = stackTop ctx \<and>
         push_arg a c1 = Inr c2 \<and> unat (stackTop c2) = unat (stackTop ctx) + 1 \<and>
         run_body k P (body (function_at P f)) c2 = Inr c3 \<and> stackTop c3 = stackTop c2 \<and>
         c' = pop_frame c3 \<and> unat (stackTop c') = unat (stackTop c3) - 1 \<and>
         stackTop c' = stackTop ctx)) \<and>
   (eval fuel P (CallAnyNode f arg) ctx = Inr (v, c') \<longrightarrow>
      (\<exists>k a c1 c2 c3. fuel = Suc k \<and> eval fuel P arg ctx = Inr (a, c1) \<and> stackTop c1 = stackTop ctx \<and>
         push_arg a c1 = Inr c2 \<and> unat (stackTop c2) = unat (stackTop ctx) + 1 \<and>
         eval k P (node_at P f) c2 = Inr (v, c3) \<and> stackTop c3 = stackTop c2 \<and>
         c' = pop_frame c3 \<and> unat (stackTop c') = unat (stackTop c3) - 1 \<and>
         stackTop c' = stackTop ctx))"
proof (intro conjI impI)
  assume "eval fuel P n ctx = Inr (v, c')"
  from eval_frames_kept[OF this] show "stackTop c' = stackTop ctx"
    by (simp add: frames_kept_def)
next
  assume "eval fuel P n (Context_init mem) = Inr (v, c')"
  from eval_frames_kept[OF this] show "stackTop c' = 0"
    by (simp add: frames_kept_def Context_init_def)
next
  assume "eval fuel P (CallNode f arg) ctx = Inr (v, c')"
  then show "\<exists>k a c1 c2 c3. fuel = Suc k \<and> eval fuel P arg ctx = Inr (a, c1) \<and> stackTop c1 = stackTop ctx \<and>
         push_arg a c1 = Inr c2 \<and> unat (stackTop c2) = unat (stackTop ctx) + 1 \<and>
         run_body k P (body (function_at P f)) c2 = Inr c3 \<and> stackTop c3 = stackTop c2 \<and>
         c' = pop_frame c3 \<and> unat (stackTop c') = unat (stackTop c3) - 1 \<and>
         stackTop c' = stackTop ctx"
    by (rule CallNode_stack_steps)
next
  assume "eval fuel P (CallAnyNode f arg) ctx = Inr (v, c')"
  then show "\<exists>k a c1 c2 c3. fuel = Suc k \<and> eval fuel P arg ctx = Inr (a, c1) \<and> stackTop c1 = stackTop ctx \<and>
         push_arg a c1 = Inr c2 \<and> unat (stackTop c2) = unat (stackTop ctx) + 1 \<and>
         eval k P (node_at P f) c2 = Inr (v, c3) \<and> stackTop c3 = stackTop c2 \<and>
         c' = pop_frame c3 \<and> unat (stackTop c') = unat (stackTop c3) - 1 \<and>
         stackTop c' = stackTop ctx"
    by (rule CallAnyNode_stack_steps)
qed

theorem stackTop_restored_witness:
  "(\<exists>v c'. eval 2 (Simplest_program left_to_right) (CallNode 0 (ConstNode 2)) (Context_init zeroed) = Inr (v, c') \<and>
     stackTop c' = 0) \<and>
   (\<exists>v c'. eval 2 (SimplifyCalls_program left_to_right) (CallAnyNode 0 (BConstNode (BetterFusion_ConstNode 2)))
      (Context_init zeroed) = Inr (v, c') \<and> stackTop c' = 0)"
proof -
  obtain c' where 1: "eval 2 (Simplest_program left_to_right) (CallNode 0 (ConstNode 2)) (Context_init zeroed) = Inr (1, c')"
    using Simplest_eval_2 by blast
  obtain d' where 2: "eval 2 (SimplifyCalls_program left_to_right) (CallAnyNode 0 (BConstNode (BetterFusion_ConstNode 2)))
      (Context_init zeroed) = Inr (1, d')"
    using SimplifyCalls_eval_2 by blast
  from 1 2 show ?thesis
    using stackTop_restored[where fuel = 2 and P = "Simplest_program left_to_right" and n = "CallNode 0 (ConstNode 2)"
        and mem = zeroed and v = 1 and c' = c']
      stackTop_restored[where fuel = 2 and P = "SimplifyCalls_program left_to_right"
        and n = "CallAnyNode 0 (BConstNode (BetterFusion_ConstNode 2))"
        and mem = zeroed and v = 1 and c' = d']
    by blast
qed

lemma call_clears_signal:
  "eval fuel P (CallNode f arg) ctx = Inr (v, c') \<Longrightarrow> \<not> stopForReturn c'"
  "eval fuel P (BetterFusion_CallNode f arg) ctx = Inr (v, c') \<Longrightarrow> \<not> stopForReturn c'"
  "eval fuel P (CallAnyNode f arg) ctx = Inr (v, c') \<Longrightarrow> \<not> stopForReturn c'"
  by (auto dest!: CallNode_Inr BetterFusion_CallNode_Inr CallAnyNode_Inr simp: pop_frame_def simp del: eval.simps)

lemma run_body_after_call:
  assumes "\<And>v c1. eval fuel P s ctx = Inr (v, c1) \<Longrightarrow> \<not> stopForReturn c1"
  shows "run_body fuel P (s # rest) ctx =
     (case eval fuel P s ctx of Inl e \<Rightarrow> Inl e | Inr (v, c1) \<Rightarrow> run_body fuel P rest c1)"
  using assms by (auto split: sum.splits)

text \<open>
  C7. Every call node clears the return signal on exit: after a call has completed,
  \<open>stopForReturn\<close> is false, whatever Return fired in the callee, also inside an
  \<open>IfNode\<close>. So the statement loop of the caller never stops at a statement that is a
  call: it goes on with the statements after it, in the context the call left; and
  what is evaluated next, a sibling call included, starts with the signal clear.
\<close>

theorem return_signal_cleared_per_call:
  "(eval fuel P (CallNode f arg) ctx = Inr (v, c') \<longrightarrow> \<not> stopForReturn c') \<and>
   (eval fuel P (BetterFusion_CallNode f arg) ctx = Inr (v, c') \<longrightarrow> \<not> stopForReturn c') \<and>
   (eval fuel P (CallAnyNode f arg) ctx = Inr (v, c') \<longrightarrow> \<not> stopForReturn c') \<and>
   run_body fuel P (CallNode f arg # rest) ctx =
     (case eval fuel P (CallNode f arg) ctx of
        Inl e \<Rightarrow> Inl e | Inr (w, c1) \<Rightarrow> run_body fuel P rest c1) \<and>
   run_body fuel P (BetterFusion_CallNode f arg # rest) ctx =
     (case eval fuel P (BetterFusion_CallNode f arg) ctx of
        Inl e \<Rightarrow> Inl e | Inr (w, c1) \<Rightarrow> run_body fuel P rest c1) \<and>
   run_body fuel P (CallAnyNode f arg # rest) ctx =
     (case eval fuel P (CallAnyNode f arg) ctx of
        Inl e \<Rightarrow> Inl e | Inr (w, c1) \<Rightarrow> run_body fuel P rest c1)"
proof -
  have a: "run_body fuel P (CallNode f arg # rest) ctx =
     (case eval fuel P (CallNode f arg) ctx of
        Inl e \<Rightarrow> Inl e | Inr (w, c1) \<Rightarrow> run_body fuel P rest c1)"
    by (rule run_body_after_call) (erule call_clears_signal(1))
  have b: "run_body fuel P (BetterFusion_CallNode f arg # rest) ctx =
     (case eval fuel P (BetterFusion_CallNode f arg) ctx of
        Inl e \<Rightarrow> Inl e | Inr (w, c1) \<Rightarrow> run_body fuel P rest c1)"
    by (rule run_body_after_call) (erule call_clears_signal(2))
  have c: "run_body fuel P (CallAnyNode f arg # rest) ctx =
     (case eval fuel P (CallAnyNode f arg) ctx of
        Inl e \<Rightarrow> Inl e | Inr (w, c1) \<Rightarrow> run_body fuel P rest c1)"
    by (rule run_body_after_call) (erule call_clears_signal(3))
  show ?thesis
    using call_clears_signal[of fuel P f arg ctx v c'] a b c by blast
qed

lemma signal_eval_inner:
  "\<exists>c'. eval 1 signal_program (CallNode 0 (ConstNode 0)) (Context_init zeroed) = Inr (5, c')"
  by (simp add: signal_program_def eval_simps_concrete)

theorem return_signal_cleared_per_call_witness:
  "(\<exists>c'. eval 1 signal_program (CallNode 0 (ConstNode 0)) (Context_init zeroed) = Inr (5, c') \<and>
     \<not> stopForReturn c' \<and>
     run_body 1 signal_program [CallNode 0 (ConstNode 0), ReturnNode (ConstNode 9)] (Context_init zeroed) =
       run_body 1 signal_program [ReturnNode (ConstNode 9)] c') \<and>
   run_fresh 2 signal_program (CallNode 1 (ConstNode 0)) zeroed = Inr 9 \<and>
   (\<exists>c'. eval 1 (SimplifyCalls_program left_to_right) (CallAnyNode 0 (BConstNode (BetterFusion_ConstNode 1)))
      (Context_init zeroed) = Inr (1, c') \<and> \<not> stopForReturn c')"
proof -
  obtain c' where e: "eval 1 signal_program (CallNode 0 (ConstNode 0)) (Context_init zeroed) = Inr (5, c')"
    using signal_eval_inner by blast
  from return_signal_cleared_per_call[where fuel = 1 and P = signal_program and f = 0 and arg = "ConstNode 0"
      and ctx = "Context_init zeroed" and v = 5 and c' = c' and rest = "[ReturnNode (ConstNode 9)]"] e
  have a: "\<exists>c'. eval 1 signal_program (CallNode 0 (ConstNode 0)) (Context_init zeroed) = Inr (5, c') \<and>
     \<not> stopForReturn c' \<and>
     run_body 1 signal_program [CallNode 0 (ConstNode 0), ReturnNode (ConstNode 9)] (Context_init zeroed) =
       run_body 1 signal_program [ReturnNode (ConstNode 9)] c'"
    by (simp del: eval.simps run_body.simps)
  have b: "run_fresh 2 signal_program (CallNode 1 (ConstNode 0)) zeroed = Inr 9"
    by (simp add: run_fresh_def numeral_2_eq_2 signal_program_def eval_simps_concrete)
  obtain d' where d: "eval 1 (SimplifyCalls_program left_to_right) (CallAnyNode 0 (BConstNode (BetterFusion_ConstNode 1)))
      (Context_init zeroed) = Inr (1, d')"
    using SimplifyCalls_eval_1 by blast
  from return_signal_cleared_per_call[where fuel = 1 and P = "SimplifyCalls_program left_to_right" and f = 0
      and arg = "BConstNode (BetterFusion_ConstNode 1)" and ctx = "Context_init zeroed" and v = 1 and c' = d'] d
  have c: "\<exists>c'. eval 1 (SimplifyCalls_program left_to_right) (CallAnyNode 0 (BConstNode (BetterFusion_ConstNode 1)))
      (Context_init zeroed) = Inr (1, c') \<and> \<not> stopForReturn c'"
    by (simp del: eval.simps run_body.simps)
  from a b c show ?thesis
    by (intro conjI)
qed

lemma stale_eval:
  "\<exists>c'. eval 2 stale_program stale_call (Context_init zeroed) = Inr (7, c')"
  by (simp add: numeral_2_eq_2 stale_program_def stale_call_def eval_simps_concrete)

text \<open>
  C2 claims that a call whose body fires no Return results in 0. \<open>stale_call\<close> calls
  the function without statements on the result of \<^verbatim>\<open>{ return 7; }\<close>, in a fresh
  context: no Return can fire in a body without statements, and the call results in 7,
  the value the call in its argument left in \<open>returnValue\<close>.
\<close>

theorem stale_return_value:
  "run_fresh 2 stale_program stale_call zeroed = Inr 7 \<and>
   stale_call = CallNode 1 (CallNode 0 (ConstNode 0)) \<and>
   body (function_at stale_program 1) = []"
  by (simp add: run_fresh_def numeral_2_eq_2 stale_program_def stale_call_def eval_simps_concrete)

text \<open>
  C2, amended. The result of a call is the value stored by the last Return that fired
  while the callee body ran (Returns of nested calls included); when none fired, it is
  the value \<open>returnValue\<close> held when the body started, which is 0 when no Return has
  fired since the context was created.
\<close>

theorem call_result_is_last_return:
  "(eval fuel P (CallNode f arg) ctx = Inr (v, c') \<longrightarrow>
      (\<exists>k a c1 c2. fuel = Suc k \<and> eval fuel P arg ctx = Inr (a, c1) \<and> push_arg a c1 = Inr c2 \<and>
         v = last_or (returnValue c1) (fired_body k P (body (function_at P f)) c2))) \<and>
   (eval fuel P (CallNode f arg) (Context_init mem) = Inr (w, c'') \<and>
    fired fuel P (CallNode f arg) (Context_init mem) = [] \<longrightarrow> w = 0)"
proof (intro conjI impI)
  assume "eval fuel P (CallNode f arg) ctx = Inr (v, c')"
  from CallNode_Inr[OF this] obtain k a c1 c2 c3 where fuel: "fuel = Suc k"
    and 1: "eval (Suc k) P arg ctx = Inr (a, c1)" and 2: "push_arg a c1 = Inr c2"
    and 3: "run_body k P (body (function_at P f)) c2 = Inr c3" and 4: "v = returnValue c3"
    by blast
  have "v = last_or (returnValue c1) (fired_body k P (body (function_at P f)) c2)"
    using run_body_returnValue[OF 3] push_arg_returnValue[OF 2] 4 by simp
  with fuel 1 2 show "\<exists>k a c1 c2. fuel = Suc k \<and> eval fuel P arg ctx = Inr (a, c1) \<and> push_arg a c1 = Inr c2 \<and>
         v = last_or (returnValue c1) (fired_body k P (body (function_at P f)) c2)"
    by blast
next
  assume a: "eval fuel P (CallNode f arg) (Context_init mem) = Inr (w, c'') \<and>
    fired fuel P (CallNode f arg) (Context_init mem) = []"
  then have e: "eval fuel P (CallNode f arg) (Context_init mem) = Inr (w, c'')"
    by simp
  from CallNode_Inr[OF e] have "w = returnValue c''"
    by (auto simp: pop_frame_def)
  with eval_returnValue[OF e] a show "w = 0"
    by (simp add: Context_init_def)
qed

theorem call_result_is_last_return_witness:
  "(\<exists>a c1 c2. eval 2 stale_program (CallNode 0 (ConstNode 0)) (Context_init zeroed) = Inr (a, c1) \<and>
     push_arg a c1 = Inr c2 \<and>
     7 = last_or (returnValue c1) (fired_body 1 stale_program (body (function_at stale_program 1)) c2)) \<and>
   (\<exists>c. eval 1 stale_program (CallNode 1 (ConstNode 0)) (Context_init zeroed) = Inr (0, c) \<and>
     fired 1 stale_program (CallNode 1 (ConstNode 0)) (Context_init zeroed) = [])"
proof -
  obtain c' where e: "eval 2 stale_program (CallNode 1 (CallNode 0 (ConstNode 0))) (Context_init zeroed) = Inr (7, c')"
    using stale_eval by (auto simp: stale_call_def)
  from call_result_is_last_return[where fuel = 2 and P = stale_program and f = 1
      and arg = "CallNode 0 (ConstNode 0)" and ctx = "Context_init zeroed" and v = 7 and c' = c'] e
  have a: "\<exists>a c1 c2. eval 2 stale_program (CallNode 0 (ConstNode 0)) (Context_init zeroed) = Inr (a, c1) \<and>
     push_arg a c1 = Inr c2 \<and>
     7 = last_or (returnValue c1) (fired_body 1 stale_program (body (function_at stale_program 1)) c2)"
    by (auto simp del: eval.simps)
  obtain w c where r: "eval 1 stale_program (CallNode 1 (ConstNode 0)) (Context_init zeroed) = Inr (w, c)"
    by (simp add: stale_program_def eval_simps_concrete)
  have n: "fired 1 stale_program (CallNode 1 (ConstNode 0)) (Context_init zeroed) = []"
    by (simp add: stale_program_def eval_simps_concrete)
  from call_result_is_last_return[where fuel = 1 and P = stale_program and f = 1
      and arg = "ConstNode 0" and mem = zeroed and w = w and c'' = c] r n
  have "w = 0"
    by (simp del: eval.simps fired.simps)
  with r n a show ?thesis
    by blast
qed










end
